theory Spec2Isabelle
  imports Main "HOL-Library.Sublist"
begin

section \<open>GeosLibrary: download, extract and build the GEOS sources\<close>

text \<open>
  A shallow embedding of \<^verbatim>\<open>packages/basemap/utils/GeosLibrary.py\<close> (Python 3).
  Python \<^verbatim>\<open>str\<close> and \<^verbatim>\<open>bytes\<close> values are \<^typ>\<open>string\<close>: the texts the class
  handles are UTF-8, and every pattern it looks for is ASCII, so working on the bytes of
  the encoding is working on the code points. Python integers are \<^typ>\<open>int\<close>, a tuple of
  integers of any length is an \<^typ>\<open>int list\<close>. An exception is a value: every
  operation that can raise returns a sum, \<open>Inl\<close> carrying the exception.
\<close>

subsection \<open>Exceptions\<close>

text \<open>
  The classes of the exceptions that the class raises, catches, or receives from the
  library calls it makes. \<open>is_OSError\<close> is the test of an \<^verbatim>\<open>except OSError\<close> handler:
  the class itself or one of its subclasses (\<^verbatim>\<open>URLError\<close> is one in Python 3).
  The second field is the message; the messages of exceptions raised inside library
  calls are not modelled and left empty.
\<close>

datatype exc_class =
  ValueError | TypeError | UnicodeDecodeError | BadZipFile
  | OSError | FileExistsError | FileNotFoundError | NotADirectoryError
  | IsADirectoryError | PermissionError | URLError

datatype exc = Exc (cls: exc_class) (msg: string)

fun is_OSError :: "exc \<Rightarrow> bool" where
  "is_OSError (Exc c m) =
     (c = OSError \<or> c = FileExistsError \<or> c = FileNotFoundError
      \<or> c = NotADirectoryError \<or> c = IsADirectoryError \<or> c = PermissionError
      \<or> c = URLError)"

subsection \<open>Strings: \<^verbatim>\<open>split\<close>, \<^verbatim>\<open>join\<close>, \<^verbatim>\<open>str\<close>, \<^verbatim>\<open>int\<close>\<close>

text \<open>
  \<^verbatim>\<open>s.split(sep)\<close> for a one-character separator: the pieces between the separators,
  empty pieces kept, so the result is never the empty list
  (\<^verbatim>\<open>"".split(".") == [""]\<close>).
\<close>

fun split_on :: "char \<Rightarrow> string \<Rightarrow> string list" where
  "split_on sep [] = [[]]"
| "split_on sep (c # cs) =
     (if c = sep then [] # split_on sep cs
      else (case split_on sep cs of
              [] \<Rightarrow> [[c]]
            | p # ps \<Rightarrow> (c # p) # ps))"

text \<open>\<^verbatim>\<open>sep.join(pieces)\<close>.\<close>

fun join :: "string \<Rightarrow> string list \<Rightarrow> string" where
  "join sep [] = []"
| "join sep [p] = p"
| "join sep (p # q # ps) = p @ sep @ join sep (q # ps)"

text \<open>The decimal digit of a number below ten, and the value of a digit character.\<close>

definition digit_char :: "nat \<Rightarrow> char" where
  "digit_char d = char_of (of_char CHR ''0'' + d)"

definition is_digit :: "char \<Rightarrow> bool" where
  "is_digit c = (of_char CHR ''0'' \<le> (of_char c :: nat) \<and> (of_char c :: nat) \<le> of_char CHR ''9'')"

definition digit_val :: "char \<Rightarrow> nat" where
  "digit_val c = of_char c - of_char CHR ''0''"

text \<open>\<^verbatim>\<open>str(n)\<close> for an integer: decimal, no leading zero, a minus sign when negative.\<close>

function str_nat :: "nat \<Rightarrow> string" where
  "str_nat n = (if n < 10 then [digit_char n] else str_nat (n div 10) @ [digit_char (n mod 10)])"
  by pat_completeness auto
termination
  by (relation "measure id") auto

declare str_nat.simps [simp del]

definition py_str :: "int \<Rightarrow> string" where
  "py_str i = (if i < 0 then CHR ''-'' # str_nat (nat (- i)) else str_nat (nat i))"

text \<open>
  \<^verbatim>\<open>int(s)\<close> for a string, base ten (Python 3.6 and later): white space around the
  literal is stripped, one sign is allowed, and the digits may be grouped by single
  underscores between digits. Anything else raises \<^verbatim>\<open>ValueError\<close>. (The digits
  of other scripts, which \<^verbatim>\<open>int\<close> accepts too, are outside the ASCII strings modelled
  here, as is the limit on the number of digits of Python 3.11.)
\<close>

definition is_space :: "char \<Rightarrow> bool" where
  "is_space c = (c \<in> set [CHR '' '', CHR 0x09, CHR 0x0A, CHR 0x0B, CHR 0x0C, CHR 0x0D])"

definition strip :: "string \<Rightarrow> string" where
  "strip s = rev (dropWhile is_space (rev (dropWhile is_space s)))"

fun digit_seq :: "string \<Rightarrow> bool" where
  "digit_seq [] = False"
| "digit_seq [c] = is_digit c"
| "digit_seq (c # d # r) =
     (is_digit c \<and> (if d = CHR ''_'' then digit_seq r else digit_seq (d # r)))"

definition digits_value :: "string \<Rightarrow> nat" where
  "digits_value ds = foldl (\<lambda>acc c. 10 * acc + digit_val c) 0 ds"

definition py_int :: "string \<Rightarrow> exc + int" where
  "py_int s =
     (let t = strip s;
          neg = (case t of [] \<Rightarrow> False | c # r \<Rightarrow> c = CHR ''-'');
          body = (case t of [] \<Rightarrow> []
                  | c # r \<Rightarrow> if c = CHR ''-'' \<or> c = CHR ''+'' then r else t)
      in if digit_seq body
         then (let v = int (digits_value (filter (\<lambda>c. c \<noteq> CHR ''_'') body))
               in Inr (if neg then - v else v))
         else Inl (Exc ValueError []))"

subsection \<open>The instance and its version\<close>

record geos_library =
  version_tuple :: "int list"
  temp :: bool
  root :: string

text \<open>
  \<^verbatim>\<open>tuple(map(int, version.split(".")))\<close>: the first piece that \<^verbatim>\<open>int\<close> refuses
  raises.
\<close>

fun map_int :: "string list \<Rightarrow> exc + int list" where
  "map_int [] = Inr []"
| "map_int (p # ps) =
     (case py_int p of
        Inl e \<Rightarrow> Inl e
      | Inr v \<Rightarrow> (case map_int ps of Inl e \<Rightarrow> Inl e | Inr vs \<Rightarrow> Inr (v # vs)))"

definition parse_version :: "string \<Rightarrow> exc + int list" where
  "parse_version version = map_int (split_on CHR ''.'' version)"

text \<open>The property \<^verbatim>\<open>version\<close>: \<^verbatim>\<open>".".join(map(str, self.version_tuple))\<close>.\<close>

definition version :: "geos_library \<Rightarrow> string" where
  "version self = join ''.'' (map py_str (version_tuple self))"

text \<open>
  Python's order on tuples, as in \<^verbatim>\<open>self.version_tuple < (3, 6, 0)\<close>: the first
  position where the two differ decides, and a proper prefix is smaller.
\<close>

fun tuple_lt :: "int list \<Rightarrow> int list \<Rightarrow> bool" where
  "tuple_lt [] [] = False"
| "tuple_lt [] (y # ys) = True"
| "tuple_lt (x # xs) [] = False"
| "tuple_lt (x # xs) (y # ys) = (if x = y then tuple_lt xs ys else x < y)"

subsection \<open>Paths\<close>

text \<open>
  \<^verbatim>\<open>os.path\<close> is \<^verbatim>\<open>posixpath\<close>. A path is the string the program builds, and the
  file system below is keyed by these strings: paths are taken in normal form (no
  symbolic link, no \<^verbatim>\<open>..\<close>, no doubled or trailing separator), so that two strings
  name the same file only when they are equal.
\<close>

definition os_path_join :: "string \<Rightarrow> string \<Rightarrow> string" where
  "os_path_join a b =
     (if prefix ''/'' b then b
      else if a = [] \<or> suffix ''/'' a then a @ b
      else a @ ''/'' @ b)"

definition rstrip_slash :: "string \<Rightarrow> string" where
  "rstrip_slash s = rev (dropWhile (\<lambda>c. c = CHR ''/'') (rev s))"

definition dirname :: "string \<Rightarrow> string" where
  "dirname p =
     (let head = rev (dropWhile (\<lambda>c. c \<noteq> CHR ''/'') (rev p))
      in if head \<noteq> [] \<and> head \<noteq> replicate (length head) CHR ''/''
         then rstrip_slash head else head)"

definition basename :: "string \<Rightarrow> string" where
  "basename p = rev (takeWhile (\<lambda>c. c \<noteq> CHR ''/'') (rev p))"

text \<open>A path is under a directory when it is the directory or lies below it.\<close>

definition under :: "string \<Rightarrow> string \<Rightarrow> bool" where
  "under d p = (p = d \<or> prefix (d @ ''/'') p)"

subsection \<open>The world\<close>

text \<open>
  What the class reads and changes outside itself: the file tree, the current directory
  of the process, the platform, the environment, and the answers of the collaborators it
  does not implement (the HTTP transport, the date parser, the archive codec, the
  temporary-directory allocator, the build tool). A file carries its bytes and its
  permission bits; time stamps are not part of the model.

  \<open>mkdir_errno\<close> is what the operating system answers to the creation of a directory
  for reasons that the tree itself does not show (permissions, a read-only medium, a name
  it refuses): \<open>None\<close> when it has no objection. \<open>chdir_errno\<close> is the same for
  a change of the current directory. Such refusals are modelled for these two calls only.

  The current directory of a process is a directory, not a name: when the directory is
  removed the process stays in it, and a new directory of the same name is another one.
  \<open>cwd\<close> is the name under which the process entered its current directory, and
  \<open>cwd_removed\<close> tells that this directory has been removed since.

  \<open>calls\<close> is the record of the child processes that were asked for, in order: the
  argument list, the environment when one is given, and the directory the process was in.
  The build tool answers with its exit status, or the process cannot be started; what
  the tool writes to the build and install directories is not part of the state: no
  later statement of the class reads it, and the tool is taken to leave the rest of the
  tree as it is.

  A path or an argument that holds a NUL character is refused by every call that hands
  it to the operating system, with \<^verbatim>\<open>ValueError\<close> (the message is the one of the POSIX
  systems). The limits of the interpreter (recursion depth, memory) are not modelled.
\<close>

datatype node = Dir | File (content: string) (mode: nat)

datatype errno = EEXIST | ENOENT | ENOTDIR | EISDIR | EACCES | EROFS | EINVAL | ENOSPC

fun os_error :: "errno \<Rightarrow> exc" where
  "os_error EEXIST = Exc FileExistsError []"
| "os_error ENOENT = Exc FileNotFoundError []"
| "os_error ENOTDIR = Exc NotADirectoryError []"
| "os_error EISDIR = Exc IsADirectoryError []"
| "os_error EACCES = Exc PermissionError []"
| "os_error EROFS = Exc OSError []"
| "os_error EINVAL = Exc OSError []"
| "os_error ENOSPC = Exc OSError []"

definition has_null :: "string \<Rightarrow> bool" where
  "has_null p = (CHR 0x00 \<in> set p)"

definition embedded_null :: exc where
  "embedded_null = Exc ValueError ''embedded null byte''"

record response =
  last_modified :: "string option"
  body :: string

record world =
  fs :: "string \<Rightarrow> node option"
  cwd :: string
  os_name :: string
  environ :: "string \<Rightarrow> string option"
  calcsize_P :: nat
  create_mode :: nat
  has_tls12 :: bool
  urlopen :: "string \<Rightarrow> bool \<Rightarrow> exc + response"
  strptime :: "string \<Rightarrow> exc + int"
  unzip :: "string \<Rightarrow> exc + (string \<times> string option) list"
  mkdtemp :: "string \<Rightarrow> errno + string"
  mkdir_errno :: "string \<Rightarrow> errno option"
  chdir_errno :: "string \<Rightarrow> errno option"
  cwd_removed :: bool
  calls :: "(string list \<times> (string \<Rightarrow> string option) option \<times> string) list"
  subprocess_call :: "string list \<Rightarrow> (string \<Rightarrow> string option) option \<Rightarrow> string \<Rightarrow> errno + int"
  expanduser :: "string \<Rightarrow> string"
  abspath :: "string \<Rightarrow> string"

text \<open>
  A statement of the program takes the world and returns its value, or the exception it
  raised, with the world as it left it.
\<close>

type_synonym 'a io = "world \<Rightarrow> (exc + 'a) \<times> world"

definition io_return :: "'a \<Rightarrow> 'a io" where
  "io_return x w = (Inr x, w)"

definition io_raise :: "exc \<Rightarrow> 'a io" where
  "io_raise e w = (Inl e, w)"

definition io_bind :: "'a io \<Rightarrow> ('a \<Rightarrow> 'b io) \<Rightarrow> 'b io" where
  "io_bind m f w = (case m w of (Inl e, w') \<Rightarrow> (Inl e, w') | (Inr x, w') \<Rightarrow> f x w')"

text \<open>\<^verbatim>\<open>try: m  except OSError: pass\<close>\<close>

definition except_OSError_pass :: "unit io \<Rightarrow> unit io" where
  "except_OSError_pass m w =
     (case m w of
        (Inl e, w') \<Rightarrow> if is_OSError e then (Inr (), w') else (Inl e, w')
      | (Inr u, w') \<Rightarrow> (Inr (), w'))"

text \<open>
  \<^verbatim>\<open>try: m  finally: fin\<close>: \<open>fin\<close> runs whatever \<open>m\<close> did; an exception of
  \<open>fin\<close> replaces the outcome of \<open>m\<close>.
\<close>

definition try_finally :: "'a io \<Rightarrow> unit io \<Rightarrow> 'a io" where
  "try_finally m fin w =
     (case m w of
        (r, w') \<Rightarrow> (case fin w' of (Inl e, w'') \<Rightarrow> (Inl e, w'') | (Inr u, w'') \<Rightarrow> (r, w'')))"

subsection \<open>File-system calls\<close>

definition exists :: "world \<Rightarrow> string \<Rightarrow> bool" where
  "exists w p = (fs w p \<noteq> None)"

definition isdir :: "world \<Rightarrow> string \<Rightarrow> bool" where
  "isdir w p = (fs w p = Some Dir)"

definition isfile :: "world \<Rightarrow> string \<Rightarrow> bool" where
  "isfile w p = (case fs w p of Some (File c m) \<Rightarrow> True | _ \<Rightarrow> False)"

text \<open>The directory that holds a path exists; a bare name is held by the current directory.\<close>

definition has_parent :: "world \<Rightarrow> string \<Rightarrow> bool" where
  "has_parent w p = (dirname p = [] \<or> dirname p = ''/'' \<or> isdir w (dirname p))"

text \<open>\<^verbatim>\<open>os.mkdir\<close>: one level, an existing path is an error.\<close>

definition os_mkdir :: "string \<Rightarrow> unit io" where
  "os_mkdir p w =
     (if has_null p then (Inl embedded_null, w)
      else case mkdir_errno w p of
        Some en \<Rightarrow> (Inl (os_error en), w)
      | None \<Rightarrow>
          if p = [] then (Inl (os_error ENOENT), w)
          else if exists w p then (Inl (os_error EEXIST), w)
          else if isfile w (dirname p) then (Inl (os_error ENOTDIR), w)
          else if \<not> has_parent w p then (Inl (os_error ENOENT), w)
          else (Inr (), w\<lparr>fs := (fs w)(p \<mapsto> Dir)\<rparr>))"

text \<open>
  \<^verbatim>\<open>os.makedirs(name)\<close>, \<^verbatim>\<open>exist_ok\<close> left false, as the library writes it:

  \<^verbatim>\<open>head, tail = path.split(name)\<close>
  \<^verbatim>\<open>if not tail: head, tail = path.split(head)\<close>
  \<^verbatim>\<open>if head and tail and not path.exists(head):\<close>
  \<^verbatim>\<open>    try: makedirs(head)\<close>
  \<^verbatim>\<open>    except FileExistsError: pass\<close>
  \<^verbatim>\<open>    if tail == curdir: return\<close>
  \<^verbatim>\<open>mkdir(name, mode)\<close>

  The directories above the leaf that were created stay when a later creation is
  refused. \<^verbatim>\<open>path.split\<close> gives \<^const>\<open>dirname\<close> and \<^const>\<open>basename\<close>.
\<close>

definition path_split :: "string \<Rightarrow> string \<times> string" where
  "path_split p = (dirname p, basename p)"

function os_makedirs :: "string \<Rightarrow> unit io" where
  "os_makedirs name w =
     (let (head, tail) = (if snd (path_split name) = [] then path_split (fst (path_split name))
                          else path_split name)
      in if head \<noteq> [] \<and> tail \<noteq> [] \<and> \<not> exists w head
         then (case os_makedirs head w of
                 (Inl e, w1) \<Rightarrow>
                   if cls e = FileExistsError
                   then (if tail = ''.'' then (Inr (), w1) else os_mkdir name w1)
                   else (Inl e, w1)
               | (Inr u, w1) \<Rightarrow> if tail = ''.'' then (Inr (), w1) else os_mkdir name w1)
         else os_mkdir name w)"
  by pat_completeness auto
termination
proof (relation "measure (\<lambda>(name, w). length name)")
  show "wf (measure (\<lambda>(name, w). length name))"
    by simp
next
  fix name :: string and w :: world and x :: "string \<times> string" and head tail :: string
  assume x: "x = (if snd (path_split name) = [] then path_split (fst (path_split name))
                  else path_split name)"
    and ht: "(head, tail) = x"
    and c: "head \<noteq> [] \<and> tail \<noteq> [] \<and> \<not> exists w head"
  have strip: "length (rstrip_slash h) \<le> length h" for h
    unfolding rstrip_slash_def
    using length_dropWhile_le [of "\<lambda>c. c = CHR ''/''" "rev h"] by simp
  have le: "length (dirname p) + length (basename p) \<le> length p" for p
  proof -
    have "length (takeWhile (\<lambda>c. c \<noteq> CHR ''/'') (rev p)
                  @ dropWhile (\<lambda>c. c \<noteq> CHR ''/'') (rev p)) = length p"
      by (simp only: takeWhile_dropWhile_id length_rev)
    then have "length (dropWhile (\<lambda>c. c \<noteq> CHR ''/'') (rev p))
            + length (takeWhile (\<lambda>c. c \<noteq> CHR ''/'') (rev p)) = length p"
      by (simp only: length_append add.commute)
    moreover have "length (dirname p) \<le> length (dropWhile (\<lambda>c. c \<noteq> CHR ''/'') (rev p))"
      using strip [of "rev (dropWhile (\<lambda>c. c \<noteq> CHR ''/'') (rev p))"]
      unfolding dirname_def Let_def by simp
    ultimately show ?thesis
      unfolding basename_def by simp
  qed
  have pos: "0 < length tail"
    using c by simp
  have "length head < length name"
  proof (cases "basename name = []")
    case True
    then have "head = dirname (dirname name)" "tail = basename (dirname name)"
      using x ht by (simp_all add: path_split_def)
    then have "length head + length tail \<le> length (dirname name)"
      using le [of "dirname name"] by simp
    with le [of name] pos show ?thesis
      by linarith
  next
    case False
    then have "head = dirname name" "tail = basename name"
      using x ht by (simp_all add: path_split_def)
    then have "length head + length tail \<le> length name"
      using le [of name] by simp
    with pos show ?thesis
      by linarith
  qed
  then show "((head, w), (name, w)) \<in> measure (\<lambda>(name, w). length name)"
    by simp
qed

declare os_makedirs.simps [simp del]

text \<open>
  \<^verbatim>\<open>shutil.rmtree(p)\<close>: the directory and all that is under it, the current directory
  of the process when it is there.
\<close>

definition shutil_rmtree :: "string \<Rightarrow> unit io" where
  "shutil_rmtree p w =
     (if has_null p then (Inl embedded_null, w)
      else case fs w p of
        None \<Rightarrow> (Inl (os_error ENOENT), w)
      | Some (File c m) \<Rightarrow> (Inl (os_error ENOTDIR), w)
      | Some Dir \<Rightarrow>
          (Inr (), w\<lparr>fs := (\<lambda>q. if under p q then None else fs w q),
                     cwd_removed := (cwd_removed w \<or> under p (cwd w))\<rparr>))"

text \<open>
  \<^verbatim>\<open>with open(p, "wb") as fd: fd.write(data)\<close>: the file is created or truncated; a
  file that exists keeps its permission bits.
\<close>

definition write_file :: "string \<Rightarrow> string \<Rightarrow> unit io" where
  "write_file p data w =
     (if has_null p then (Inl embedded_null, w)
      else case fs w p of
        Some Dir \<Rightarrow> (Inl (os_error EISDIR), w)
      | Some (File c m) \<Rightarrow> (Inr (), w\<lparr>fs := (fs w)(p \<mapsto> File data m)\<rparr>)
      | None \<Rightarrow>
          if has_parent w p
          then (Inr (), w\<lparr>fs := (fs w)(p \<mapsto> File data (create_mode w))\<rparr>)
          else if isfile w (dirname p) then (Inl (os_error ENOTDIR), w)
          else (Inl (os_error ENOENT), w))"

definition os_utime :: "string \<Rightarrow> int \<Rightarrow> unit io" where
  "os_utime p t w =
     (if has_null p then (Inl embedded_null, w)
      else if exists w p then (Inr (), w) else (Inl (os_error ENOENT), w))"

text \<open>
  \<^verbatim>\<open>os.getcwd\<close> raises \<^verbatim>\<open>FileNotFoundError\<close> when the current directory is no longer
  there. \<^verbatim>\<open>os.chdir\<close> wants a directory that the system lets the process enter; the
  process is then in a directory that is there.
\<close>

definition os_getcwd :: "string io" where
  "os_getcwd w = (if cwd_removed w then (Inl (os_error ENOENT), w) else (Inr (cwd w), w))"

definition os_chdir :: "string \<Rightarrow> unit io" where
  "os_chdir p w =
     (if has_null p then (Inl embedded_null, w)
      else case chdir_errno w p of
        Some en \<Rightarrow> (Inl (os_error en), w)
      | None \<Rightarrow>
          (case fs w p of
             Some Dir \<Rightarrow> (Inr (), w\<lparr>cwd := p, cwd_removed := False\<rparr>)
           | Some (File c m) \<Rightarrow> (Inl (os_error ENOTDIR), w)
           | None \<Rightarrow> (Inl (os_error ENOENT), w)))"

definition tempfile_mkdtemp :: "string \<Rightarrow> string io" where
  "tempfile_mkdtemp pre w =
     (case mkdtemp w pre of
        Inl en \<Rightarrow> (Inl (os_error en), w)
      | Inr p \<Rightarrow> (Inr p, w\<lparr>fs := (fs w)(p \<mapsto> Dir)\<rparr>))"

text \<open>
  \<^verbatim>\<open>subprocess.call(args, env=env)\<close>: the child is started in the current directory of
  the process and the call gives its exit status.
\<close>

definition call :: "string list \<Rightarrow> (string \<Rightarrow> string option) option \<Rightarrow> int io" where
  "call args env w =
     (if list_ex has_null args then (Inl embedded_null, w)
      else case subprocess_call w args env (cwd w) of
        Inl en \<Rightarrow> (Inl (os_error en), w\<lparr>calls := calls w @ [(args, env, cwd w)]\<rparr>)
      | Inr status \<Rightarrow> (Inr status, w\<lparr>calls := calls w @ [(args, env, cwd w)]\<rparr>))"

subsection \<open>Reading and patching text\<close>

text \<open>
  The UTF-8 decoder accepts the well-formed sequences only (no overlong form, no
  surrogate, nothing above U+10FFFF). \<open>utf8_scan k lo hi\<close> expects \<open>k\<close> more
  continuation bytes, the next one between \<open>lo\<close> and \<open>hi\<close>.
\<close>

fun utf8_scan :: "nat \<Rightarrow> nat \<Rightarrow> nat \<Rightarrow> string \<Rightarrow> bool" where
  "utf8_scan k lo hi [] = (k = 0)"
| "utf8_scan k lo hi (c # cs) =
     (let x = (of_char c :: nat) in
      if k = 0 then
        (if x < 0x80 then utf8_scan 0 0 0 cs
         else if 0xC2 \<le> x \<and> x \<le> 0xDF then utf8_scan 1 0x80 0xBF cs
         else if x = 0xE0 then utf8_scan 2 0xA0 0xBF cs
         else if x = 0xED then utf8_scan 2 0x80 0x9F cs
         else if 0xE1 \<le> x \<and> x \<le> 0xEF then utf8_scan 2 0x80 0xBF cs
         else if x = 0xF0 then utf8_scan 3 0x90 0xBF cs
         else if x = 0xF4 then utf8_scan 3 0x80 0x8F cs
         else if 0xF1 \<le> x \<and> x \<le> 0xF3 then utf8_scan 3 0x80 0xBF cs
         else False)
      else lo \<le> x \<and> x \<le> hi \<and> utf8_scan (k - 1) 0x80 0xBF cs)"

definition utf8_valid :: "string \<Rightarrow> bool" where
  "utf8_valid s = utf8_scan 0 0 0 s"

definition NL :: char where
  "NL = CHR 0x0A"

definition CR :: char where
  "CR = CHR 0x0D"

text \<open>
  A file opened for reading as text, \<^verbatim>\<open>newline\<close> left at its default: the line ends
  \<^verbatim>\<open>\r\n\<close> and \<^verbatim>\<open>\r\<close> are handed over as \<^verbatim>\<open>\n\<close>.
\<close>

fun translate_newlines :: "string \<Rightarrow> string" where
  "translate_newlines [] = []"
| "translate_newlines [c] = [if c = CR then NL else c]"
| "translate_newlines (c # d # r) =
     (if c = CR then (if d = NL then NL # translate_newlines r
                      else NL # translate_newlines (d # r))
      else c # translate_newlines (d # r))"

text \<open>The lines of a text, each with its \<^verbatim>\<open>\n\<close>; the last one may lack it.\<close>

fun split_lines :: "string \<Rightarrow> string list" where
  "split_lines [] = []"
| "split_lines (c # cs) =
     (if c = NL then [c] # split_lines cs
      else (case split_lines cs of
              [] \<Rightarrow> [[c]]
            | l # ls \<Rightarrow> (c # l) # ls))"

text \<open>\<^verbatim>\<open>with io.open(p, "r", encoding="utf-8") as fd: lines = fd.readlines()\<close>\<close>

definition readlines :: "string \<Rightarrow> (string list) io" where
  "readlines p w =
     (if has_null p then (Inl embedded_null, w)
      else case fs w p of
        None \<Rightarrow> (Inl (os_error ENOENT), w)
      | Some Dir \<Rightarrow> (Inl (os_error EISDIR), w)
      | Some (File c m) \<Rightarrow>
          if utf8_valid c then (Inr (split_lines (translate_newlines c)), w)
          else (Inl (Exc UnicodeDecodeError []), w))"

text \<open>
  \<^verbatim>\<open>s.replace(old, new)\<close>: the occurrences of \<open>old\<close> are found from the left and do
  not overlap. With an empty \<open>old\<close>, \<open>new\<close> is put before every character and at the
  end.
\<close>

function replace_from :: "string \<Rightarrow> string \<Rightarrow> string \<Rightarrow> string" where
  "replace_from old new s =
     (if old = [] \<or> s = [] then s
      else if prefix old s then new @ replace_from old new (drop (length old) s)
      else hd s # replace_from old new (tl s))"
  by pat_completeness auto
termination
  by (relation "measure (\<lambda>(old, new, s). length s)") auto

declare replace_from.simps [simp del]

definition py_replace :: "string \<Rightarrow> string \<Rightarrow> string \<Rightarrow> string" where
  "py_replace old new s =
     (if old = [] then new @ concat (map (\<lambda>c. c # new) s) else replace_from old new s)"

definition oldtext :: string where
  "oldtext = ''target_link_libraries(geos_c geos)''"

definition newtext :: string where
  "newtext = ''target_link_libraries(geos_c geos-static)''"

subsection \<open>The class\<close>

definition GEOS_BASEURL :: string where
  "GEOS_BASEURL = ''https://github.com/libgeos/geos/archive/refs/tags''"

text \<open>
  \<^verbatim>\<open>__init__\<close>. A root that the caller gives is created, and every \<^verbatim>\<open>OSError\<close> of
  the creation is passed over.
\<close>

definition init :: "string \<Rightarrow> string option \<Rightarrow> geos_library io" where
  "init vers rt w =
     (case parse_version vers of
        Inl e \<Rightarrow> (Inl e, w)
      | Inr vt \<Rightarrow>
          (case rt of
             None \<Rightarrow>
               io_bind (tempfile_mkdtemp ''tmp_geoslibrary_'')
                 (\<lambda>r. io_return \<lparr>version_tuple = vt, temp = True, root = r\<rparr>) w
           | Some r \<Rightarrow>
               io_bind (except_OSError_pass (os_makedirs r))
                 (\<lambda>u. io_return \<lparr>version_tuple = vt, temp = False, root = r\<rparr>) w))"

text \<open>\<^verbatim>\<open>__del__\<close>\<close>

definition del :: "geos_library \<Rightarrow> unit io" where
  "del self =
     (if temp self then except_OSError_pass (shutil_rmtree (root self)) else io_return ())"

text \<open>
  \<^verbatim>\<open>download\<close>. \<^verbatim>\<open>link.rsplit("/", 1)[-1]\<close> is the \<^const>\<open>basename\<close> of the link. The call
  of \<^verbatim>\<open>urlopen\<close> is repeated without the security context when the first one raises
  \<^verbatim>\<open>TypeError\<close>. The date is parsed before anything is written. The temporary file
  that the body passes through is removed when the copy is done and is left out.
\<close>

definition download :: "geos_library \<Rightarrow> unit io" where
  "download self w =
     (let link = GEOS_BASEURL @ ''/'' @ version self @ ''.zip'';
          zipname = ''geos-'' @ basename link;
          zippath = os_path_join (root self) zipname;
          conn = (case urlopen w link (has_tls12 w) of
                    Inl e \<Rightarrow> if cls e = TypeError then urlopen w link False else Inl e
                  | Inr c \<Rightarrow> Inr c)
      in case conn of
           Inl e \<Rightarrow> (Inl e, w)
         | Inr c \<Rightarrow>
             (case last_modified c of
                None \<Rightarrow> write_file zippath (body c) w
              | Some d \<Rightarrow>
                  (case strptime w d of
                     Inl e \<Rightarrow> (Inl e, w)
                   | Inr t \<Rightarrow>
                       io_bind (write_file zippath (body c)) (\<lambda>u. os_utime zippath t) w)))"

definition zippath_of :: "geos_library \<Rightarrow> string" where
  "zippath_of self = os_path_join (root self) (''geos-'' @ version self @ ''.zip'')"

definition zipfold_of :: "geos_library \<Rightarrow> string" where
  "zipfold_of self = os_path_join (root self) (''geos-'' @ version self)"

text \<open>
  \<^verbatim>\<open>ZipFile(zippath, "r").extractall(root)\<close>. The codec \<open>unzip\<close> gives the members of
  an archive in order, a directory as \<open>None\<close> and a file as its bytes, under the
  relative names that the library has already cleaned. The directories above a member
  are created when missing; permission bits of the archive are not restored.
\<close>

definition extract_member :: "string \<Rightarrow> string \<times> string option \<Rightarrow> unit io" where
  "extract_member dest member w =
     (let targetpath = os_path_join dest (fst member);
          upperdirs = dirname targetpath
      in io_bind
           (if upperdirs \<noteq> [] \<and> \<not> exists w upperdirs then os_makedirs upperdirs
            else io_return ())
           (\<lambda>u w1. case snd member of
                     None \<Rightarrow> if isdir w1 targetpath then (Inr (), w1) else os_mkdir targetpath w1
                   | Some data \<Rightarrow> write_file targetpath data w1) w)"

fun extract_members :: "string \<Rightarrow> (string \<times> string option) list \<Rightarrow> unit io" where
  "extract_members dest [] w = (Inr (), w)"
| "extract_members dest (m # ms) w =
     (case extract_member dest m w of
        (Inl e, w1) \<Rightarrow> (Inl e, w1)
      | (Inr u, w1) \<Rightarrow> extract_members dest ms w1)"

definition extractall :: "string \<Rightarrow> string \<Rightarrow> unit io" where
  "extractall zippath dest w =
     (if has_null zippath then (Inl embedded_null, w)
      else case fs w zippath of
        None \<Rightarrow> (Inl (os_error ENOENT), w)
      | Some Dir \<Rightarrow> (Inl (os_error EISDIR), w)
      | Some (File c m) \<Rightarrow>
          (case unzip w c of
             Inl e \<Rightarrow> (Inl e, w)
           | Inr members \<Rightarrow> extract_members dest members w))"

text \<open>
  The first three statements of \<^verbatim>\<open>extract\<close>: fetch the archive when it is missing,
  clear or refuse an existing destination, decompress.
\<close>

definition already_exists :: "string \<Rightarrow> exc" where
  "already_exists zipfold =
     Exc OSError (''folder '' @ [CHR 0x27] @ zipfold @ [CHR 0x27] @ '' already exists'')"

definition unpack :: "geos_library \<Rightarrow> bool \<Rightarrow> unit io" where
  "unpack self overwrite =
     io_bind (\<lambda>w. if \<not> exists w (zippath_of self) then download self w else (Inr (), w))
       (\<lambda>u. io_bind
          (\<lambda>w. if exists w (zipfold_of self)
               then (if \<not> overwrite then io_raise (already_exists (zipfold_of self)) w
                     else shutil_rmtree (zipfold_of self) w)
               else (Inr (), w))
          (\<lambda>u. extractall (zippath_of self) (root self)))"

text \<open>
  \<^verbatim>\<open>for path in sorted(glob.glob(os.path.join(zipfold, "tools", "*.sh"))): os.chmod(path, 0o755)\<close>.
  The pattern's directory part is taken literally; \<^verbatim>\<open>*\<close> matches any name that does not
  start with a dot. Each call changes the bits of one path, so the loop is written as
  its effect on every path. The bits \<^verbatim>\<open>0o755\<close> are the number 493.
\<close>

definition fnmatch :: "string \<Rightarrow> string \<Rightarrow> bool" where
  "fnmatch name pat =
     (case pat of
        [] \<Rightarrow> name = []
      | c # lit \<Rightarrow> if c = CHR ''*'' then suffix lit name \<and> \<not> prefix ''.'' name
                   else name = pat)"

definition glob_matches :: "string \<Rightarrow> string \<Rightarrow> bool" where
  "glob_matches pattern p =
     (dirname p = dirname pattern \<and> fnmatch (basename p) (basename pattern))"

fun chmod_node :: "nat \<Rightarrow> node \<Rightarrow> node" where
  "chmod_node b Dir = Dir"
| "chmod_node b (File c m) = File c b"

definition chmod_tools :: "string \<Rightarrow> unit io" where
  "chmod_tools zipfold w =
     (let pattern = os_path_join (os_path_join zipfold ''tools'') ''*.sh''
      in (Inr (), w\<lparr>fs := (\<lambda>p. if glob_matches pattern p
                                 then map_option (chmod_node 493) (fs w p)
                                 else fs w p)\<rparr>))"

text \<open>The patch of \<^verbatim>\<open>capi/CMakeLists.txt\<close>: read the lines, write each one replaced.\<close>

definition cmakefile_of :: "string \<Rightarrow> string" where
  "cmakefile_of zipfold = os_path_join (os_path_join zipfold ''capi'') ''CMakeLists.txt''"

definition patch_lines :: "string list \<Rightarrow> string" where
  "patch_lines lines = concat (map (\<lambda>line. py_replace oldtext newtext line) lines)"

definition patch_cmakelists :: "string \<Rightarrow> unit io" where
  "patch_cmakelists zipfold =
     io_bind (readlines (cmakefile_of zipfold))
       (\<lambda>lines. write_file (cmakefile_of zipfold) (patch_lines lines))"

text \<open>The revision header of the releases before 3.6.0.\<close>

definition svn_hfile_of :: "string \<Rightarrow> string" where
  "svn_hfile_of zipfold = os_path_join zipfold ''geos_svn_revision.h''"

definition write_svn_revision :: "geos_library \<Rightarrow> string \<Rightarrow> unit io" where
  "write_svn_revision self zipfold w =
     (if tuple_lt (version_tuple self) [3, 6, 0] \<and> \<not> exists w (svn_hfile_of zipfold)
      then write_file (svn_hfile_of zipfold) ''#define GEOS_SVN_REVISION 0'' w
      else (Inr (), w))"

text \<open>\<^verbatim>\<open>extract\<close> (the name is taken in Isabelle, hence the prefix).\<close>

definition geos_extract :: "geos_library \<Rightarrow> bool \<Rightarrow> unit io" where
  "geos_extract self overwrite =
     io_bind (unpack self overwrite)
       (\<lambda>u. io_bind (chmod_tools (zipfold_of self))
          (\<lambda>u. io_bind (patch_cmakelists (zipfold_of self))
             (\<lambda>u. write_svn_revision self (zipfold_of self))))"

text \<open>
  \<^verbatim>\<open>build\<close>: the three lists and the environment that it assembles, then the calls.
  \<^verbatim>\<open>"{0:d}".format(njobs)\<close> is \<^const>\<open>py_str\<close> on an integer.
\<close>

definition config_opts :: "world \<Rightarrow> geos_library \<Rightarrow> string \<Rightarrow> string list" where
  "config_opts w self installdir =
     (let opts = [''-DCMAKE_INSTALL_PREFIX='' @ installdir,
                  ''-DGEOS_ENABLE_TESTS=OFF'',
                  ''-DCMAKE_BUILD_TYPE=Release'']
      in if os_name w = ''nt'' \<and> tuple_lt (version_tuple self) [3, 6, 0]
         then [''-G'', ''NMake Makefiles''] @ opts else opts)"

definition build_env :: "world \<Rightarrow> int \<Rightarrow> string \<Rightarrow> string option" where
  "build_env w njobs =
     (if os_name w \<noteq> ''nt'' then (environ w)(''MAKEFLAGS'' \<mapsto> ''-j '' @ py_str njobs)
      else environ w)"

definition build_opts :: "world \<Rightarrow> geos_library \<Rightarrow> int \<Rightarrow> string list" where
  "build_opts w self njobs =
     (let opts = [''--config'', ''Release'', ''--target'', ''install'']
      in if os_name w \<noteq> ''nt'' then opts
         else if tuple_lt (version_tuple self) [3, 6, 0]
         then opts @ [''--'',
                      ''WIN64='' @ (if 8 * calcsize_P w = 64 then ''YES'' else ''NO''),
                      ''BUILD_BATCH='' @ (if njobs > 1 then ''YES'' else ''NO'')]
         else [''-j'', py_str njobs] @ opts)"

definition build_calls :: "string \<Rightarrow> string \<Rightarrow> string list \<Rightarrow> string list
    \<Rightarrow> (string \<Rightarrow> string option) \<Rightarrow> unit io" where
  "build_calls builddir installdir copts bopts benv =
     io_bind (except_OSError_pass (os_makedirs builddir))
       (\<lambda>u. io_bind (os_chdir builddir)
          (\<lambda>u. io_bind (call ([''cmake'', ''..''] @ copts) None)
             (\<lambda>status. io_bind (except_OSError_pass (os_makedirs installdir))
                (\<lambda>u. io_bind (call ([''cmake'', ''--build'', ''.''] @ bopts) (Some benv))
                   (\<lambda>status. io_return ())))))"

definition build :: "geos_library \<Rightarrow> string option \<Rightarrow> int \<Rightarrow> unit io" where
  "build self installdir njobs =
     io_bind (geos_extract self True)
       (\<lambda>u w.
          (let builddir = os_path_join (zipfold_of self) ''build'';
               dir = abspath w (case installdir of
                                  None \<Rightarrow> expanduser w ''~/.local/share/libgeos''
                                | Some d \<Rightarrow> d)
           in io_bind os_getcwd
                (\<lambda>cwd0. try_finally
                   (build_calls builddir dir (config_opts w self dir)
                      (build_opts w self njobs) (build_env w njobs))
                   (os_chdir cwd0)) w))"

subsection \<open>Vocabulary of the statements\<close>

text \<open>The bytes of the file at a path, when there is a file.\<close>

definition content_at :: "world \<Rightarrow> string \<Rightarrow> string option" where
  "content_at w p = (case fs w p of Some (File c m) \<Rightarrow> Some c | _ \<Rightarrow> None)"

text \<open>The lines of a text as \<^verbatim>\<open>readlines\<close> hands them over.\<close>

definition lines_read :: "string \<Rightarrow> string list" where
  "lines_read c = split_lines (translate_newlines c)"

text \<open>
  A plain numeral is what \<^verbatim>\<open>str\<close> prints for a number that is not negative: digits
  only, no leading zero. A plain version is made of plain numerals between dots.
\<close>

definition plain_numeral :: "string \<Rightarrow> bool" where
  "plain_numeral p = (p = ''0'' \<or> (p \<noteq> [] \<and> list_all is_digit p \<and> hd p \<noteq> CHR ''0''))"

definition plain_version :: "string \<Rightarrow> bool" where
  "plain_version s = list_all plain_numeral (split_on CHR ''.'' s)"

text \<open>The world with another build tool.\<close>

definition with_tool ::
  "(string list \<Rightarrow> (string \<Rightarrow> string option) option \<Rightarrow> string \<Rightarrow> errno + int) \<Rightarrow> world \<Rightarrow> world" where
  "with_tool t w = w\<lparr>subprocess_call := t\<rparr>"

subsection \<open>Sample worlds\<close>

text \<open>
  A machine with the archive of release \<open>v\<close> already in \<^verbatim>\<open>/work\<close>, whose build
  descriptor has the text \<open>cm\<close>, no network, and a build tool that reports failure.
\<close>

definition demo_members :: "string \<Rightarrow> string \<Rightarrow> (string \<times> string option) list" where
  "demo_members v cm =
     [(''geos-'' @ v, None),
      (''geos-'' @ v @ ''/capi'', None),
      (''geos-'' @ v @ ''/capi/CMakeLists.txt'', Some cm),
      (''geos-'' @ v @ ''/tools'', None),
      (''geos-'' @ v @ ''/tools/astyle.sh'', Some ''#!/bin/sh'')]"

definition demo_world :: "string \<Rightarrow> string \<Rightarrow> world" where
  "demo_world v cm =
     \<lparr>fs = [''/home'' \<mapsto> Dir, ''/work'' \<mapsto> Dir,
            ''/work/geos-'' @ v @ ''.zip'' \<mapsto> File ''PK'' 420],
      cwd = ''/home'',
      os_name = ''posix'',
      environ = [''PATH'' \<mapsto> ''/usr/bin''],
      calcsize_P = 8,
      create_mode = 420,
      has_tls12 = True,
      urlopen = (\<lambda>link ctx. Inl (Exc URLError [])),
      strptime = (\<lambda>d. Inl (Exc ValueError [])),
      unzip = (\<lambda>c. Inr (demo_members v cm)),
      mkdtemp = (\<lambda>pre. Inr (''/tmp/'' @ pre @ ''x'')),
      mkdir_errno = (\<lambda>p. None),
      chdir_errno = (\<lambda>p. None),
      cwd_removed = False,
      calls = [],
      subprocess_call = (\<lambda>args env d. Inr 2),
      expanduser = (\<lambda>p. ''/home/user'' @ drop 1 p),
      abspath = (\<lambda>p. p)\<rparr>"

definition demo_self :: "int list \<Rightarrow> geos_library" where
  "demo_self vt = \<lparr>version_tuple = vt, temp = False, root = ''/work''\<rparr>"

definition linked_shared :: string where
  "linked_shared = ''project(geos_c)'' @ [NL] @ ''target_link_libraries(geos_c geos)'' @ [NL]"

definition not_linked :: string where
  "not_linked = ''project(geos_c)'' @ [CR, NL] @ ''add_library(geos_c)'' @ [CR, NL]"

text \<open>The same machine after an earlier extraction of release 3.5.0.\<close>

definition demo_extracted :: world where
  "demo_extracted =
     (demo_world ''3.5.0'' linked_shared)
       \<lparr>fs := (fs (demo_world ''3.5.0'' linked_shared))
          (''/work/geos-3.5.0'' \<mapsto> Dir, ''/work/geos-3.5.0/README'' \<mapsto> File ''GEOS'' 420)\<rparr>"

text \<open>The extracted tree is there, the archive is gone, and the network is down.\<close>

definition demo_no_archive :: world where
  "demo_no_archive =
     demo_extracted\<lparr>fs := (fs demo_extracted)(''/work/geos-3.5.0.zip'' := None)\<rparr>"

text \<open>A machine that refuses every directory creation.\<close>

definition demo_denied :: world where
  "demo_denied = (demo_world ''3.5.0'' linked_shared)\<lparr>mkdir_errno := (\<lambda>p. Some EACCES)\<rparr>"

text \<open>The same machine seen as Windows.\<close>

definition demo_nt :: world where
  "demo_nt = (demo_world ''3.5.0'' linked_shared)\<lparr>os_name := ''nt''\<rparr>"



text \<open>A root with a NUL character in its name.\<close>

definition null_root :: string where
  "null_root = ''/work/a'' @ [CHR 0x00] @ ''b''"

subsection \<open>Vocabulary of the proofs\<close>

text \<open>What \<^const>\<open>os_path_join\<close> puts before a relative name.\<close>

definition root_prefix :: "string \<Rightarrow> string" where
  "root_prefix r = (if r = [] \<or> suffix ''/'' r then r else r @ ''/'')"

text \<open>A statement that changes nothing but the file tree.\<close>

definition only_fs :: "'a io \<Rightarrow> bool" where
  "only_fs m = (\<forall>w. (snd (m w))\<lparr>fs := fs w\<rparr> = w)"

text \<open>
  A statement that changes nothing but the file tree, where it may remove what is under
  \<open>d\<close>: the current directory of the process is removed by it only when it is under
  \<open>d\<close>, and a directory that was removed stays so.
\<close>

definition clears_under :: "string \<Rightarrow> 'a io \<Rightarrow> bool" where
  "clears_under d m =
     (\<forall>w. (snd (m w))\<lparr>fs := fs w, cwd_removed := cwd_removed w\<rparr> = w
          \<and> (cwd_removed w \<longrightarrow> cwd_removed (snd (m w)))
          \<and> (cwd_removed (snd (m w)) \<longrightarrow> cwd_removed w \<or> under d (cwd w)))"

text \<open>A statement that neither runs the build tool nor depends on it.\<close>

definition tool_blind :: "'a io \<Rightarrow> bool" where
  "tool_blind m = (\<forall>t w. m (with_tool t w) = (fst (m w), with_tool t (snd (m w))))"

text \<open>
  A statement whose outcome is the same whatever exit statuses the build tool reports:
  run with a tool that reports \<open>st\<close>, it gives what it gives with a tool that always
  reports 0.
\<close>

definition reports :: "(string list \<Rightarrow> (string \<Rightarrow> string option) option \<Rightarrow> string \<Rightarrow> int)
    \<Rightarrow> world \<Rightarrow> world" where
  "reports st w = with_tool (\<lambda>args env d. Inr (st args env d)) w"

definition status_blind :: "'a io \<Rightarrow> bool" where
  "status_blind m =
     (\<forall>st w. m (reports st w) =
               (fst (m (reports (\<lambda>args env d. 0) w)),
                reports st (snd (m (reports (\<lambda>args env d. 0) w)))))"

section \<open>Lemmas\<close>

subsection \<open>Version strings\<close>

lemma join_split_on: "join [sep] (split_on sep s) = s"
proof (induction s)
  case Nil show ?case by simp
next
  case (Cons c cs)
  show ?case
  proof (cases "c = sep")
    case True
    then show ?thesis using Cons by (cases "split_on sep cs") auto
  next
    case False
    then show ?thesis using Cons
      by (cases "split_on sep cs"; cases "tl (split_on sep cs)") auto
  qed
qed

lemma set_strip: "set (strip s) \<subseteq> set s"
  unfolding strip_def
  by (metis set_dropWhileD set_rev subsetI)

lemma digits_value_snoc: "digits_value (p @ [c]) = 10 * digits_value p + digit_val c"
  by (simp add: digits_value_def)

lemma py_int_nonneg:
  assumes "py_int p = Inr v" "CHR ''-'' \<notin> set p"
  shows "0 \<le> v"
proof -
  have "CHR ''-'' \<notin> set (strip p)" using assms(2) set_strip by blast
  then have "\<not> (case strip p of [] \<Rightarrow> False | c # r \<Rightarrow> c = CHR ''-'')"
    by (cases "strip p") auto
  with assms(1) show ?thesis
    by (auto simp: py_int_def Let_def split: if_splits)
qed

lemma set_split_on_Un: "(\<Union>p \<in> set (split_on sep s). set p) \<subseteq> set s"
  by (induction s) (auto split: list.splits if_splits, blast+)

lemma set_split_on: "p \<in> set (split_on sep s) \<Longrightarrow> set p \<subseteq> set s"
  using set_split_on_Un[of sep s] by blast

lemma map_int_nonneg:
  "map_int ps = Inr vt \<Longrightarrow> \<forall>p \<in> set ps. CHR ''-'' \<notin> set p \<Longrightarrow> \<forall>c \<in> set vt. 0 \<le> c"
proof (induction ps arbitrary: vt)
  case Nil then show ?case by simp
next
  case (Cons p ps)
  then show ?case
    by (auto split: sum.splits dest: py_int_nonneg)
qed

lemma parse_version_nonneg:
  assumes "parse_version s = Inr vt" "CHR ''-'' \<notin> set s"
  shows "\<forall>c \<in> set vt. 0 \<le> c"
proof -
  have "\<forall>p \<in> set (split_on CHR ''.'' s). CHR ''-'' \<notin> set p"
    using assms(2) set_split_on by fastforce
  with assms(1) show ?thesis
    unfolding parse_version_def by (rule map_int_nonneg)
qed

lemma init_fst_version_tuple:
  "fst (init s rt w) = Inr self \<Longrightarrow> parse_version s = Inr (version_tuple self)"
  by (auto simp: init_def io_bind_def io_return_def split: sum.splits option.splits prod.splits)

lemma is_digit_cases: "is_digit c \<Longrightarrow> c \<in> set ''0123456789''"
proof -
  assume a: "is_digit c"
  have "(of_char c :: nat) = 48 \<or> (of_char c :: nat) = 49 \<or> (of_char c :: nat) = 50 \<or> (of_char c :: nat) = 51 \<or> (of_char c :: nat) = 52 \<or> (of_char c :: nat) = 53 \<or> (of_char c :: nat) = 54 \<or> (of_char c :: nat) = 55 \<or> (of_char c :: nat) = 56 \<or> (of_char c :: nat) = 57"
    using a by (simp add: is_digit_def) arith
  moreover have "c = char_of (of_char c :: nat)" by simp
  ultimately have "c = char_of (48::nat) \<or> c = char_of (49::nat) \<or> c = char_of (50::nat) \<or> c = char_of (51::nat) \<or> c = char_of (52::nat) \<or> c = char_of (53::nat) \<or> c = char_of (54::nat) \<or> c = char_of (55::nat) \<or> c = char_of (56::nat) \<or> c = char_of (57::nat)"
    by metis
  then show ?thesis by (simp add: char_of_def bit_0)
qed

lemma digit_char_val: "is_digit c \<Longrightarrow> digit_char (digit_val c) = c \<and> digit_val c < 10"
  by (drule is_digit_cases) (auto simp: digit_char_def digit_val_def char_of_def bit_0)

lemma is_digit_not_space: "is_digit c \<Longrightarrow> \<not> is_space c \<and> c \<noteq> CHR ''_'' \<and> c \<noteq> CHR ''-'' \<and> c \<noteq> CHR ''+''"
  by (drule is_digit_cases) (auto simp: is_space_def)

lemma digit_val_zero: "is_digit c \<Longrightarrow> digit_val c = 0 \<Longrightarrow> c = CHR ''0''"
  by (drule is_digit_cases) (auto simp: digit_val_def)

lemma str_nat_digits:
  "list_all is_digit p \<Longrightarrow> p \<noteq> [] \<Longrightarrow> hd p \<noteq> CHR ''0'' \<Longrightarrow>
   str_nat (digits_value p) = p \<and> 0 < digits_value p"
proof (induction p rule: rev_induct)
  case Nil then show ?case by simp
next
  case (snoc c p)
  have dc: "is_digit c" using snoc.prems(1) by simp
  note dv = digit_char_val[OF dc]
  show ?case
  proof (cases "p = []")
    case True
    then have "digit_val c \<noteq> 0" using snoc.prems(3) digit_val_zero[OF dc] by auto
    then show ?thesis using True dv by (simp add: digits_value_def str_nat.simps[of "digit_val c"])
  next
    case False
    then have ih: "str_nat (digits_value p) = p" "0 < digits_value p"
      using snoc by auto
    let ?n = "10 * digits_value p + digit_val c"
    have "\<not> ?n < 10" using ih(2) by simp
    moreover have "?n div 10 = digits_value p" "?n mod 10 = digit_val c" using dv by auto
    ultimately have "str_nat ?n = p @ [c]"
      using ih(1) dv by (subst str_nat.simps) simp
    then show ?thesis using ih(2) by (simp add: digits_value_snoc)
  qed
qed

lemma digit_seq_all: "list_all is_digit p \<Longrightarrow> p \<noteq> [] \<Longrightarrow> digit_seq p"
  by (induction p rule: digit_seq.induct) (auto dest: is_digit_not_space)

lemma strip_digits: "list_all is_digit p \<Longrightarrow> strip p = p"
proof -
  assume a: "list_all is_digit p"
  have 1: "dropWhile is_space p = p"
    using a by (cases p) (auto dest: is_digit_not_space)
  have "list_all is_digit (rev p)" using a by (simp add: list_all_iff)
  then have 2: "dropWhile is_space (rev p) = rev p"
    by (cases "rev p") (auto dest: is_digit_not_space)
  show ?thesis by (simp add: strip_def 1 2)
qed

lemma py_int_digits:
  assumes "list_all is_digit p" "p \<noteq> []"
  shows "py_int p = Inr (int (digits_value p))"
proof -
  obtain c r where p: "p = c # r" using assms(2) by (cases p) auto
  have c: "c \<noteq> CHR ''-''" "c \<noteq> CHR ''+''" using assms(1) p is_digit_not_space by auto
  have f: "filter (\<lambda>c. c \<noteq> CHR ''_'') p = p"
    using assms(1) by (auto simp: list_all_iff filter_id_conv dest: is_digit_not_space)
  show ?thesis
    using digit_seq_all[OF assms] f c
    by (simp add: py_int_def strip_digits[OF assms(1), unfolded p] p Let_def)
qed

lemma plain_numeral_roundtrip:
  assumes "plain_numeral p"
  shows "\<exists>v. py_int p = Inr v \<and> py_str v = p"
proof (cases "p = ''0''")
  case True
  then show ?thesis by (simp add: py_int_def strip_def is_space_def is_digit_def digits_value_def digit_val_def py_str_def digit_char_def char_of_def bit_0 str_nat.simps[of 0])
next
  case False
  then have a: "list_all is_digit p" "p \<noteq> []" "hd p \<noteq> CHR ''0''"
    using assms by (auto simp: plain_numeral_def)
  show ?thesis using py_int_digits[OF a(1,2)] str_nat_digits[OF a]
    by (simp add: py_str_def)
qed

lemma map_int_roundtrip:
  "list_all plain_numeral ps \<Longrightarrow> \<exists>vt. map_int ps = Inr vt \<and> map py_str vt = ps"
proof (induction ps)
  case Nil then show ?case by simp
next
  case (Cons p ps)
  then obtain vt where "map_int ps = Inr vt" "map py_str vt = ps" by auto
  moreover obtain v where "py_int p = Inr v" "py_str v = p"
    using Cons.prems plain_numeral_roundtrip by auto
  ultimately show ?case by simp
qed

subsection \<open>Text replacement\<close>

lemma replace_from_unfold:
  "old \<noteq> [] \<Longrightarrow> replace_from old new [] = []"
  "old \<noteq> [] \<Longrightarrow> prefix old (x # xs) \<Longrightarrow>
     replace_from old new (x # xs) = new @ replace_from old new (drop (length old) (x # xs))"
  "old \<noteq> [] \<Longrightarrow> \<not> prefix old (x # xs) \<Longrightarrow>
     replace_from old new (x # xs) = x # replace_from old new xs"
  by (subst replace_from.simps, simp)+

lemma replace_from_id:
  "\<not> sublist old s \<Longrightarrow> replace_from old new s = s"
proof (induction old new s rule: replace_from.induct)
  case (1 old new s)
  show ?case
  proof (cases "old = [] \<or> s = []")
    case True then show ?thesis by (subst replace_from.simps) simp
  next
    case False
    then obtain x xs where s: "s = x # xs" by (cases s) auto
    have np: "\<not> prefix old s" using "1.prems" prefix_imp_sublist by blast
    have "\<not> sublist old (tl s)" using "1.prems" s by (simp add: sublist_Cons_right)
    then have "replace_from old new (tl s) = tl s" using "1.IH"(2) False np by simp
    then show ?thesis using False np s by (simp add: replace_from_unfold)
  qed
qed

lemma replace_from_contains:
  "old \<noteq> [] \<Longrightarrow> sublist old s \<Longrightarrow> sublist new (replace_from old new s)"
proof (induction old new s rule: replace_from.induct)
  case (1 old new s)
  then obtain x xs where s: "s = x # xs" by (cases s) auto
  show ?case
  proof (cases "prefix old s")
    case True
    then show ?thesis using "1.prems" s by (simp add: replace_from_unfold)
  next
    case False
    then have "sublist old (tl s)" using "1.prems" s by (simp add: sublist_Cons_right)
    then have "sublist new (replace_from old new (tl s))"
      using "1.IH"(2) "1.prems" False s by simp
    then show ?thesis using False s "1.prems"(1) by (simp add: replace_from_unfold sublist_Cons_right)
  qed
qed

lemma prefix_of_replace:
  assumes new: "new = q @ [c]" "c \<notin> set q" and old: "old \<noteq> []"
  shows "prefix y (replace_from old new s) \<Longrightarrow> y \<noteq> [] \<Longrightarrow> last y = c \<Longrightarrow>
         c \<notin> set (butlast y) \<Longrightarrow> length y < length new \<Longrightarrow> prefix y s"
proof (induction s arbitrary: y rule: length_induct)
  case (1 s)
  show ?case
  proof (cases s)
    case Nil
    then show ?thesis using "1.prems" old by (simp add: replace_from_unfold)
  next
    case (Cons x xs)
    show ?thesis
    proof (cases "prefix old s")
      case True
      then have "prefix y (new @ replace_from old new (drop (length old) s))"
        using "1.prems"(1) Cons old by (simp add: replace_from_unfold)
      then have "prefix y new" using "1.prems"(5)
        by (auto simp: prefix_append)
      then have "prefix y q" using "1.prems"(5) new(1) by auto
      then have "set y \<subseteq> set q" by (rule set_mono_prefix)
      moreover have "c \<in> set y" using "1.prems"(2,3) last_in_set by blast
      ultimately show ?thesis using new(2) by blast
    next
      case False
      then have r: "replace_from old new s = x # replace_from old new xs"
        using Cons old by (simp add: replace_from_unfold)
      obtain y' where y: "y = x # y'" "prefix y' (replace_from old new xs)"
        using "1.prems"(1,2) r by (cases y) auto
      show ?thesis
      proof (cases "y' = []")
        case True then show ?thesis using y Cons by simp
      next
        case False
        have "prefix y' xs"
          using "1.IH" Cons y "1.prems" False
          by (auto split: if_splits)
        then show ?thesis using y Cons by simp
      qed
    qed
  qed
qed

lemma replace_from_removes:
  assumes old: "old = p @ [c]" "c \<notin> set p"
      and new: "new = q @ [c]" "c \<notin> set q"
      and nn: "\<not> sublist old new" "length old < length new"
  shows "\<not> sublist old (replace_from old new s)"
proof (induction s rule: length_induct)
  case (1 s)
  have ne: "old \<noteq> []" using old by simp
  show ?case
  proof (cases s)
    case Nil
    then show ?thesis using ne by (simp add: replace_from_unfold)
  next
    case (Cons x xs)
    show ?thesis
    proof (cases "prefix old s")
      case True
      let ?r = "replace_from old new (drop (length old) s)"
      have ih: "\<not> sublist old ?r" using "1.IH" Cons ne by simp
      have eq: "replace_from old new s = new @ ?r"
        using True Cons ne by (simp add: replace_from_unfold)
      show ?thesis
      proof
        assume "sublist old (replace_from old new s)"
        then obtain x1 x2 where x: "old = x1 @ x2" "suffix x1 new" "prefix x2 ?r"
          using eq ih nn(1) by (auto simp: sublist_append)
        have "x1 \<noteq> []" using x ih by auto
        moreover have "x2 \<noteq> []" using x nn(1) by auto
        ultimately have "last x1 = c" "prefix x1 p"
          using x new(1) old(1)
          by (auto simp: suffix_def prefix_def append_eq_append_conv2 Cons_eq_append_conv
                   append_eq_Cons_conv)
        then show False using old(2) \<open>x1 \<noteq> []\<close>
          by (metis last_in_set set_mono_prefix subsetD)
      qed
    next
      case False
      have r: "replace_from old new s = x # replace_from old new xs"
        using False Cons ne by (simp add: replace_from_unfold)
      have ih: "\<not> sublist old (replace_from old new xs)" using "1.IH" Cons by simp
      show ?thesis
      proof
        assume "sublist old (replace_from old new s)"
        then have "prefix old (replace_from old new s)"
          using r ih by (simp add: sublist_Cons_right)
        then have "prefix old s"
          using prefix_of_replace[OF new ne, of old s] old nn(2) by simp
        then show False using False by simp
      qed
    qed
  qed
qed

lemma oldtext_not_in_newtext: "\<not> sublist oldtext newtext"
  by code_simp

lemma oldtext_removed: "\<not> sublist oldtext (replace_from oldtext newtext s)"
  by (rule replace_from_removes[where p = "''target_link_libraries(geos_c geos''" and c = "CHR '')''"
        and q = "''target_link_libraries(geos_c geos-static''"])
     (simp_all add: oldtext_not_in_newtext, simp_all add: oldtext_def newtext_def)

lemma replace_from_snoc:
  assumes "c \<notin> set old" "old \<noteq> []"
  shows "replace_from old new (s @ [c]) = replace_from old new s @ [c]"
proof (induction s rule: length_induct)
  case (1 s)
  show ?case
  proof (cases s)
    case Nil
    have "\<not> prefix old [c]" using assms by (cases old) auto
    then show ?thesis using Nil assms(2) by (simp add: replace_from_unfold)
  next
    case (Cons x xs)
    have pe: "prefix old (s @ [c]) = prefix old s" using assms(1) by auto
    show ?thesis
    proof (cases "prefix old s")
      case True
      then have le: "length old \<le> length s" by (rule prefix_length_le)
      have "length (drop (length old) s) < length s" using assms(2) Cons by simp
      then have "replace_from old new (drop (length old) s @ [c]) =
                 replace_from old new (drop (length old) s) @ [c]"
        using "1.IH" by blast
      moreover have "drop (length old) (s @ [c]) = drop (length old) s @ [c]" using le by simp
      ultimately show ?thesis
        using True pe Cons assms(2)
        by (simp add: replace_from_unfold del: prefix_snoc drop_append)
    next
      case False
      have "replace_from old new (xs @ [c]) = replace_from old new xs @ [c]"
        using "1.IH" Cons by simp
      then show ?thesis using False pe Cons assms(2)
        by (simp add: replace_from_unfold del: prefix_snoc)
    qed
  qed
qed

lemma split_lines_ends:
  "l \<in> set (butlast (split_lines t)) \<Longrightarrow> l \<noteq> [] \<and> last l = NL"
proof (induction t arbitrary: l)
  case Nil then show ?case by simp
next
  case (Cons c cs)
  then show ?case
    by (cases "split_lines cs") (auto split: if_splits)
qed

lemma concat_split_lines: "concat (split_lines t) = t"
  by (induction t) (auto split: list.splits)

lemma translate_newlines_id: "CR \<notin> set t \<Longrightarrow> translate_newlines t = t"
  by (induction t rule: translate_newlines.induct) auto

lemma not_sublist_concat:
  assumes "NL \<notin> set old" "old \<noteq> []"
  shows "\<forall>l \<in> set ls. \<not> sublist old l \<Longrightarrow>
         \<forall>l \<in> set (butlast ls). l \<noteq> [] \<and> last l = NL \<Longrightarrow> \<not> sublist old (concat ls)"
proof (induction ls)
  case Nil
  then show ?case using assms by simp
next
  case (Cons l ls)
  show ?case
  proof (cases "ls = []")
    case True then show ?thesis using Cons.prems by simp
  next
    case False
    then have l: "l \<noteq> []" "last l = NL" using Cons.prems(2) by auto
    have ih: "\<not> sublist old (concat ls)" using Cons False by auto
    show ?thesis
    proof
      assume "sublist old (concat (l # ls))"
      then obtain x1 x2 where x: "old = x1 @ x2" "suffix x1 l" "prefix x2 (concat ls)"
        using ih Cons.prems(1) by (auto simp: sublist_append)
      have "x1 \<noteq> []" using x ih by auto
      then have "last x1 = NL" using x(2) l by (auto simp: suffix_def)
      then have "NL \<in> set x1" using \<open>x1 \<noteq> []\<close> last_in_set by metis
      then show False using assms x(1) by simp
    qed
  qed
qed

lemma sublist_concat_member: "l \<in> set ls \<Longrightarrow> sublist l (concat ls)"
  by (auto simp: in_set_conv_decomp)

lemma py_replace_oldtext: "py_replace oldtext newtext s = replace_from oldtext newtext s"
  by (simp add: py_replace_def oldtext_def)

lemma patch_lines_removes:
  assumes "\<forall>l \<in> set (butlast ls). l \<noteq> [] \<and> last l = NL"
  shows "\<not> sublist oldtext (patch_lines ls)"
proof -
  have nl: "NL \<notin> set oldtext" by (simp add: oldtext_def NL_def)
  have ne: "oldtext \<noteq> []" by (simp add: oldtext_def)
  let ?f = "replace_from oldtext newtext"
  have "\<forall>l \<in> set (butlast (map ?f ls)). l \<noteq> [] \<and> last l = NL"
  proof
    fix l assume "l \<in> set (butlast (map ?f ls))"
    then obtain k where k: "k \<in> set (butlast ls)" "l = ?f k" by (auto simp: map_butlast[symmetric])
    then have "k = butlast k @ [NL]" using assms by (metis append_butlast_last_id)
    then have "?f k = ?f (butlast k) @ [NL]" using replace_from_snoc[OF nl ne] by metis
    then show "l \<noteq> [] \<and> last l = NL" using k by simp
  qed
  moreover have "\<forall>l \<in> set (map ?f ls). \<not> sublist oldtext l" by (auto simp: oldtext_removed)
  ultimately have "\<not> sublist oldtext (concat (map ?f ls))" by (rule not_sublist_concat[OF nl ne, rotated])
  then show ?thesis by (simp add: patch_lines_def py_replace_oldtext)
qed

lemma patch_lines_contains:
  assumes "l \<in> set ls" "sublist oldtext l"
  shows "sublist newtext (patch_lines ls)"
proof -
  have "sublist newtext (replace_from oldtext newtext l)"
    using assms(2) by (intro replace_from_contains) (simp add: oldtext_def)
  moreover have "sublist (replace_from oldtext newtext l) (patch_lines ls)"
    unfolding patch_lines_def using assms(1) by (intro sublist_concat_member) (auto simp: py_replace_oldtext)
  ultimately show ?thesis using sublist_order.order_trans by blast
qed

lemma py_replace_keeps: "\<not> sublist oldtext l \<Longrightarrow> py_replace oldtext newtext l = l"
  by (simp add: py_replace_oldtext replace_from_id)

subsection \<open>Paths and the download\<close>

lemma digit_char_not_slash: "d < 10 \<Longrightarrow> digit_char d \<noteq> CHR ''/''"
proof
  assume d: "d < 10" and "digit_char d = CHR ''/''"
  then have "(of_char (digit_char d) :: nat) = of_char CHR ''/''" by simp
  then have "(48 + d) mod 256 = 47" by (simp add: digit_char_def)
  with d show False by simp
qed

lemma str_nat_no_slash: "CHR ''/'' \<notin> set (str_nat n)"
proof (induction n rule: str_nat.induct)
  case (1 n)
  show ?case
  proof (cases "n < 10")
    case True
    then show ?thesis using digit_char_not_slash[of n] by (subst str_nat.simps) simp
  next
    case False
    have "n mod 10 < 10" by simp
    then have "digit_char (n mod 10) \<noteq> CHR ''/''" by (rule digit_char_not_slash)
    then show ?thesis using False "1.IH" by (subst str_nat.simps) simp
  qed
qed

lemma py_str_no_slash: "CHR ''/'' \<notin> set (py_str i)"
  using str_nat_no_slash[of "nat i"] str_nat_no_slash[of "nat (- i)"]
  by (simp add: py_str_def)

lemma join_chars: "set (join sep ps) \<subseteq> set sep \<union> (\<Union>p \<in> set ps. set p)"
  by (induction sep ps rule: join.induct) auto

lemma version_no_slash: "CHR ''/'' \<notin> set (version self)"
proof -
  have "set (version self) \<subseteq> set ''.'' \<union> (\<Union>p \<in> set (map py_str (version_tuple self)). set p)"
    unfolding version_def by (rule join_chars)
  then show ?thesis using py_str_no_slash by auto
qed

lemma takeWhile_rev_all: "c \<notin> set n \<Longrightarrow> takeWhile (\<lambda>x. x \<noteq> c) (rev n) = rev n"
  by (simp add: takeWhile_eq_all_conv) auto

lemma basename_append: "CHR ''/'' \<notin> set n \<Longrightarrow> basename (d @ ''/'' @ n) = n"
  by (simp add: basename_def takeWhile_tail takeWhile_rev_all)

lemma join_geos: "os_path_join r (''geos-'' @ x) = root_prefix r @ ''geos-'' @ x"
  by (simp add: os_path_join_def root_prefix_def)

lemma zippath_zipfold: "zippath_of self = zipfold_of self @ ''.zip''"
  unfolding zippath_of_def zipfold_of_def join_geos by simp

lemma download_zippath:
  "os_path_join (root self) (''geos-'' @ basename (GEOS_BASEURL @ ''/'' @ version self @ ''.zip''))
   = zippath_of self"
proof -
  have "CHR ''/'' \<notin> set (version self @ ''.zip'')" using version_no_slash by simp
  then have "basename (GEOS_BASEURL @ ''/'' @ (version self @ ''.zip'')) = version self @ ''.zip''"
    by (rule basename_append)
  then show ?thesis by (simp add: zippath_of_def)
qed

lemma zipfold_shape: "zipfold_of self \<noteq> [] \<and> \<not> suffix ''/'' (zipfold_of self)"
proof -
  let ?g = "''geos-'' @ version self"
  have "last ?g \<noteq> CHR ''/''"
  proof (cases "version self = []")
    case True then show ?thesis by simp
  next
    case False
    then have "last ?g = last (version self)" by simp
    then show ?thesis using version_no_slash[of self] False last_in_set by metis
  qed
  moreover have "zipfold_of self = root_prefix (root self) @ ?g"
    unfolding zipfold_of_def by (rule join_geos)
  ultimately have "last (zipfold_of self) \<noteq> CHR ''/''" "zipfold_of self \<noteq> []"
    by (simp_all del: append.simps add: last_append)
  then show ?thesis by (auto simp: suffix_def)
qed

lemma zippath_not_under: "\<not> under (zipfold_of self) (zippath_of self)"
  by (simp add: under_def zippath_zipfold)

lemma write_file_fs:
  "q \<noteq> p \<Longrightarrow> fs (snd (write_file p d w)) q = fs w q"
  by (auto simp: write_file_def split: option.splits node.splits)

lemma download_alt:
  "download self w =
     (case (case urlopen w (GEOS_BASEURL @ ''/'' @ version self @ ''.zip'') (has_tls12 w) of
              Inl e \<Rightarrow> if cls e = TypeError
                       then urlopen w (GEOS_BASEURL @ ''/'' @ version self @ ''.zip'') False
                       else Inl e
            | Inr c \<Rightarrow> Inr c) of
        Inl e \<Rightarrow> (Inl e, w)
      | Inr c \<Rightarrow>
          (case last_modified c of
             None \<Rightarrow> write_file (zippath_of self) (body c) w
           | Some d \<Rightarrow>
               (case strptime w d of
                  Inl e \<Rightarrow> (Inl e, w)
                | Inr t \<Rightarrow>
                    io_bind (write_file (zippath_of self) (body c))
                      (\<lambda>u. os_utime (zippath_of self) t) w)))"
  unfolding download_def Let_def download_zippath by (rule refl)

lemma download_fs:
  assumes "q \<noteq> zippath_of self"
  shows "fs (snd (download self w)) q = fs w q"
proof -
  have "fs (snd (io_bind (write_file (zippath_of self) b) (\<lambda>u. os_utime (zippath_of self) t) w)) q = fs w q" for b t
    using write_file_fs[OF assms, of b w]
    by (auto simp: io_bind_def os_utime_def split: prod.splits sum.splits)
  then show ?thesis
    using write_file_fs[OF assms]
    unfolding download_alt
    by (auto split: sum.splits option.splits)
qed

lemma extract_refused:
  assumes "exists w (zipfold_of self)"
  shows "geos_extract self False w =
           (if exists w (zippath_of self) then (Inl (already_exists (zipfold_of self)), w)
            else (case download self w of
                    (Inl e, w1) \<Rightarrow> (Inl e, w1)
                  | (Inr u, w1) \<Rightarrow> (Inl (already_exists (zipfold_of self)), w1)))"
proof -
  have ne: "zipfold_of self \<noteq> zippath_of self" by (simp add: zippath_zipfold)
  have "exists (snd (download self w)) (zipfold_of self)"
    using assms download_fs[OF ne] by (simp add: exists_def)
  then show ?thesis using assms
    by (auto simp: geos_extract_def unpack_def io_bind_def io_raise_def split: prod.splits sum.splits)
qed

subsection \<open>What the extraction leaves alone\<close>

lemma only_fsD: "only_fs m \<Longrightarrow> m w = (r, w1) \<Longrightarrow> w1\<lparr>fs := fs w\<rparr> = w"
  unfolding only_fs_def by (metis snd_conv)

lemma only_fs_at: "only_fs m \<Longrightarrow> (snd (m w))\<lparr>fs := fs w\<rparr> = w"
  by (simp add: only_fs_def)

lemma only_fs_same [simp]: "only_fs (\<lambda>w. (r w, w))"
  by (simp add: only_fs_def)

lemma only_fs_return [simp]: "only_fs (io_return x)"
  by (simp add: only_fs_def io_return_def)

lemma only_fs_raise [simp]: "only_fs (io_raise e)"
  by (simp add: only_fs_def io_raise_def)

lemma only_fs_bind:
  assumes "only_fs m" "\<And>x. only_fs (f x)"
  shows "only_fs (io_bind m f)"
  unfolding only_fs_def
proof
  fix w
  obtain r w1 where m: "m w = (r, w1)" by (cases "m w")
  have w1: "w1\<lparr>fs := fs w\<rparr> = w" using assms(1) m by (rule only_fsD)
  show "(snd (io_bind m f w))\<lparr>fs := fs w\<rparr> = w"
  proof (cases r)
    case (Inl e)
    then show ?thesis using m w1 by (simp add: io_bind_def)
  next
    case (Inr x)
    have "(snd (f x w1))\<lparr>fs := fs w1\<rparr> = w1"
      using assms(2)[of x] by (rule only_fs_at)
    then have "((snd (f x w1))\<lparr>fs := fs w1\<rparr>)\<lparr>fs := fs w\<rparr> = w" using w1 by simp
    then have "(snd (f x w1))\<lparr>fs := fs w\<rparr> = w" by simp
    then show ?thesis using m Inr by (simp add: io_bind_def)
  qed
qed

lemma only_fs_if:
  "only_fs a \<Longrightarrow> only_fs b \<Longrightarrow> only_fs (\<lambda>w. if c w then a w else b w)"
  by (simp add: only_fs_def)

lemma only_fs_write_file [simp]: "only_fs (write_file p d)"
  unfolding only_fs_def by (auto simp: write_file_def split: option.splits node.splits)

lemma only_fs_os_utime [simp]: "only_fs (os_utime p t)"
  unfolding only_fs_def by (auto simp: os_utime_def)

lemma only_fs_os_mkdir [simp]: "only_fs (os_mkdir p)"
  unfolding only_fs_def by (auto simp: os_mkdir_def split: option.splits)

lemma os_makedirs_unfold:
  assumes "(if snd (path_split name) = [] then path_split (fst (path_split name))
            else path_split name) = (head, tail)"
  shows "os_makedirs name w =
     (if head \<noteq> [] \<and> tail \<noteq> [] \<and> \<not> exists w head
      then (case os_makedirs head w of
              (Inl e, w1) \<Rightarrow>
                if cls e = FileExistsError
                then (if tail = ''.'' then (Inr (), w1) else os_mkdir name w1)
                else (Inl e, w1)
            | (Inr u, w1) \<Rightarrow> if tail = ''.'' then (Inr (), w1) else os_mkdir name w1)
      else os_mkdir name w)"
  by (subst os_makedirs.simps) (simp only: assms Let_def prod.case)

lemma os_makedirs_world: "(snd (os_makedirs p w))\<lparr>fs := fs w\<rparr> = w"
proof (induction p w rule: os_makedirs.induct)
  case (1 name w)
  obtain head tail where ht:
    "(if snd (path_split name) = [] then path_split (fst (path_split name))
      else path_split name) = (head, tail)"
    by (cases "if snd (path_split name) = [] then path_split (fst (path_split name))
               else path_split name")
  note eq = os_makedirs_unfold [OF ht, of w]
  show ?case
  proof (cases "head \<noteq> [] \<and> tail \<noteq> [] \<and> \<not> exists w head")
    case True
    obtain r w1 where m: "os_makedirs head w = (r, w1)"
      by (cases "os_makedirs head w")
    have w1: "w1\<lparr>fs := fs w\<rparr> = w"
      using "1.IH" [OF refl ht [symmetric] True] m by simp
    have "(snd (os_mkdir name w1))\<lparr>fs := fs w1\<rparr> = w1"
      by (rule only_fs_at [OF only_fs_os_mkdir])
    then have "((snd (os_mkdir name w1))\<lparr>fs := fs w1\<rparr>)\<lparr>fs := fs w\<rparr> = w"
      using w1 by simp
    then have mk: "(snd (os_mkdir name w1))\<lparr>fs := fs w\<rparr> = w"
      by simp
    have "os_makedirs name w =
            (case r of
               Inl e \<Rightarrow> if cls e = FileExistsError
                        then (if tail = ''.'' then (Inr (), w1) else os_mkdir name w1)
                        else (Inl e, w1)
             | Inr u \<Rightarrow> if tail = ''.'' then (Inr (), w1) else os_mkdir name w1)"
      unfolding eq using True by (simp add: m)
    then show ?thesis
      using w1 mk by (simp split: sum.splits)
  next
    case False
    have "os_makedirs name w = os_mkdir name w"
      unfolding eq using False by auto
    then show ?thesis
      using only_fs_at [OF only_fs_os_mkdir [of name], where w = w] by simp
  qed
qed

lemma only_fs_os_makedirs [simp]: "only_fs (os_makedirs p)"
  unfolding only_fs_def by (simp add: os_makedirs_world)

lemma only_fs_readlines [simp]: "only_fs (readlines p)"
  unfolding only_fs_def by (auto simp: readlines_def split: option.splits node.splits)

lemma only_fs_chmod_tools [simp]: "only_fs (chmod_tools z)"
  unfolding only_fs_def by (auto simp: chmod_tools_def Let_def)

lemma only_fs_extract_member [simp]: "only_fs (extract_member dest member)"
  unfolding only_fs_def
proof
  fix w
  let ?t = "os_path_join dest (fst member)"
  let ?A = "if dirname ?t \<noteq> [] \<and> \<not> exists w (dirname ?t) then os_makedirs (dirname ?t)
            else io_return ()"
  let ?B = "\<lambda>(u::unit) w1. case snd member of
              None \<Rightarrow> if isdir w1 ?t then (Inr (), w1) else os_mkdir ?t w1
            | Some data \<Rightarrow> write_file ?t data w1"
  have A: "only_fs ?A" by simp
  have B: "only_fs (?B x)" for x
  proof (cases "snd member")
    case None
    have "only_fs (\<lambda>w1. if isdir w1 ?t then (Inr (), w1) else os_mkdir ?t w1)"
      by (rule only_fs_if[where a = "\<lambda>w. (Inr (), w)" and b = "os_mkdir ?t"]) simp_all
    then show ?thesis using None by simp
  next
    case (Some d)
    have "only_fs (\<lambda>w1. write_file ?t d w1)" by simp
    then show ?thesis using Some by simp
  qed
  have "only_fs (io_bind ?A ?B)" using A B by (rule only_fs_bind)
  moreover have "extract_member dest member w = io_bind ?A ?B w"
    by (simp add: extract_member_def Let_def)
  ultimately show "(snd (extract_member dest member w))\<lparr>fs := fs w\<rparr> = w"
    by (simp add: only_fs_at)
qed

lemma extract_members_bind:
  "extract_members dest (m # ms) = io_bind (extract_member dest m) (\<lambda>u. extract_members dest ms)"
  by (rule ext) (auto simp: io_bind_def split: prod.splits sum.splits)

lemma only_fs_extract_members [simp]: "only_fs (extract_members dest ms)"
proof (induction ms)
  case Nil
  have "extract_members dest [] = (\<lambda>w. (Inr (), w))" by (rule ext) simp
  then show ?case by (simp only: only_fs_same)
next
  case (Cons m ms)
  show ?case unfolding extract_members_bind
    by (rule only_fs_bind) (simp_all add: Cons del: extract_members.simps)
qed

lemma only_fs_extractall [simp]: "only_fs (extractall z dest)"
  unfolding only_fs_def
proof
  fix w
  show "(snd (extractall z dest w))\<lparr>fs := fs w\<rparr> = w"
    using only_fs_at[OF only_fs_extract_members, where w = w]
    by (auto simp: extractall_def split: option.splits node.splits sum.splits)
qed

lemma only_fs_download [simp]: "only_fs (download self)"
  unfolding only_fs_def
proof
  fix w
  have 1: "only_fs (io_bind (write_file p b) (\<lambda>u. os_utime p t))" for p b t
    by (rule only_fs_bind) simp_all
  show "(snd (download self w))\<lparr>fs := fs w\<rparr> = w"
    using only_fs_at[OF 1, where w = w] only_fs_at[OF only_fs_write_file, where w = w]
    unfolding download_alt
    by (auto split: sum.splits option.splits)
qed

lemma only_fs_clears: "only_fs m \<Longrightarrow> clears_under d m"
proof -
  assume a: "only_fs m"
  show ?thesis
    unfolding clears_under_def
  proof
    fix w
    have e: "(snd (m w))\<lparr>fs := fs w\<rparr> = w"
      using a by (rule only_fs_at)
    then have "cwd_removed ((snd (m w))\<lparr>fs := fs w\<rparr>) = cwd_removed w"
      by simp
    then have r: "cwd_removed (snd (m w)) = cwd_removed w"
      by simp
    have "w\<lparr>cwd_removed := cwd_removed w\<rparr> = w"
      by simp
    then have f: "(snd (m w))\<lparr>fs := fs w, cwd_removed := cwd_removed w\<rparr> = w"
      by (simp only: e)
    show "(snd (m w))\<lparr>fs := fs w, cwd_removed := cwd_removed w\<rparr> = w
        \<and> (cwd_removed w \<longrightarrow> cwd_removed (snd (m w)))
        \<and> (cwd_removed (snd (m w)) \<longrightarrow> cwd_removed w \<or> under d (cwd w))"
      unfolding r by (intro conjI impI disjI1 f)
  qed
qed

lemma clears_under_at:
  "clears_under d m \<Longrightarrow> (snd (m w))\<lparr>fs := fs w, cwd_removed := cwd_removed w\<rparr> = w"
  by (simp add: clears_under_def)

lemma clears_under_stays: "clears_under d m \<Longrightarrow> cwd_removed w \<Longrightarrow> cwd_removed (snd (m w))"
  by (simp add: clears_under_def)

lemma clears_under_why:
  "clears_under d m \<Longrightarrow> cwd_removed (snd (m w)) \<Longrightarrow> cwd_removed w \<or> under d (cwd w)"
  by (simp add: clears_under_def)

lemma clears_under_cwd: "clears_under d m \<Longrightarrow> cwd (snd (m w)) = cwd w"
proof -
  assume "clears_under d m"
  then have "(snd (m w))\<lparr>fs := fs w, cwd_removed := cwd_removed w\<rparr> = w"
    by (rule clears_under_at)
  then have "cwd ((snd (m w))\<lparr>fs := fs w, cwd_removed := cwd_removed w\<rparr>) = cwd w"
    by simp
  then show ?thesis by simp
qed

lemma clears_under_rmtree [simp]: "clears_under d (shutil_rmtree d)"
  unfolding clears_under_def
  by (auto simp: shutil_rmtree_def split: option.splits node.splits)

lemma clears_under_same [simp]: "clears_under d (\<lambda>w. (r w, w))"
  by (simp add: clears_under_def)

lemma clears_under_raise [simp]: "clears_under d (io_raise e)"
  by (simp add: clears_under_def io_raise_def)

lemma clears_under_if:
  "clears_under d a \<Longrightarrow> clears_under d b \<Longrightarrow> clears_under d (\<lambda>w. if c w then a w else b w)"
  by (simp add: clears_under_def)

lemma clears_under_bind:
  assumes "clears_under d m" "\<And>x. clears_under d (f x)"
  shows "clears_under d (io_bind m f)"
  unfolding clears_under_def
proof
  fix w
  obtain r w1 where m: "m w = (r, w1)" by (cases "m w")
  have w1: "w1\<lparr>fs := fs w, cwd_removed := cwd_removed w\<rparr> = w"
    using clears_under_at [OF assms(1), of w] m by simp
  have s1: "cwd_removed w \<longrightarrow> cwd_removed w1"
    using clears_under_stays [OF assms(1), of w] m by simp
  have y1: "cwd_removed w1 \<longrightarrow> cwd_removed w \<or> under d (cwd w)"
    using clears_under_why [OF assms(1), of w] m by simp
  have c1: "cwd w1 = cwd w"
    using clears_under_cwd [OF assms(1), of w] m by simp
  show "(snd (io_bind m f w))\<lparr>fs := fs w, cwd_removed := cwd_removed w\<rparr> = w
      \<and> (cwd_removed w \<longrightarrow> cwd_removed (snd (io_bind m f w)))
      \<and> (cwd_removed (snd (io_bind m f w)) \<longrightarrow> cwd_removed w \<or> under d (cwd w))"
  proof (cases r)
    case (Inl e)
    then show ?thesis using m w1 s1 y1 by (simp add: io_bind_def)
  next
    case (Inr x)
    have "(snd (f x w1))\<lparr>fs := fs w1, cwd_removed := cwd_removed w1\<rparr> = w1"
      using assms(2) [of x] by (rule clears_under_at)
    then have "((snd (f x w1))\<lparr>fs := fs w1, cwd_removed := cwd_removed w1\<rparr>)
                 \<lparr>fs := fs w, cwd_removed := cwd_removed w\<rparr> = w"
      using w1 by simp
    then have a: "(snd (f x w1))\<lparr>fs := fs w, cwd_removed := cwd_removed w\<rparr> = w"
      by simp
    have b: "cwd_removed w1 \<longrightarrow> cwd_removed (snd (f x w1))"
      using clears_under_stays [OF assms(2) [of x], of w1] by simp
    have c: "cwd_removed (snd (f x w1)) \<longrightarrow> cwd_removed w1 \<or> under d (cwd w)"
      using clears_under_why [OF assms(2) [of x], of w1] c1 by auto
    show ?thesis
      using m Inr a b c s1 y1 by (auto simp: io_bind_def)
  qed
qed

lemma clears_under_unpack [simp]: "clears_under (zipfold_of self) (unpack self ov)"
proof -
  let ?d = "zipfold_of self"
  have 1: "clears_under ?d
             (\<lambda>w. if \<not> exists w (zippath_of self) then download self w else (Inr (), w))"
    by (rule clears_under_if [where a = "download self" and b = "\<lambda>w. (Inr (), w)"])
       (simp_all add: only_fs_clears)
  have 2: "clears_under ?d (\<lambda>w. if \<not> ov then io_raise (already_exists ?d) w
                                  else shutil_rmtree ?d w)"
    by (cases ov) simp_all
  have 3: "clears_under ?d (\<lambda>w. if exists w ?d
               then (if \<not> ov then io_raise (already_exists ?d) w
                     else shutil_rmtree ?d w)
               else (Inr (), w))"
    by (rule clears_under_if [where b = "\<lambda>w. (Inr (), w)", OF 2]) simp
  show ?thesis unfolding unpack_def
    by (rule clears_under_bind [OF 1]) (rule clears_under_bind [OF 3], simp add: only_fs_clears)
qed

lemma only_fs_patch [simp]: "only_fs (patch_cmakelists z)"
  unfolding patch_cmakelists_def by (rule only_fs_bind) simp_all

lemma only_fs_write_svn [simp]: "only_fs (write_svn_revision self z)"
  unfolding only_fs_def
proof
  fix w
  show "(snd (write_svn_revision self z w))\<lparr>fs := fs w\<rparr> = w"
    using only_fs_at[OF only_fs_write_file, where w = w]
    by (simp add: write_svn_revision_def)
qed

lemma clears_under_extract [simp]: "clears_under (zipfold_of self) (geos_extract self ov)"
  unfolding geos_extract_def
  by (intro clears_under_bind clears_under_unpack only_fs_clears only_fs_chmod_tools
        only_fs_patch only_fs_write_svn)


lemma extract_frame:
  "(snd (geos_extract self ov w))\<lparr>fs := fs w, cwd_removed := cwd_removed w\<rparr> = w"
  by (rule clears_under_at [OF clears_under_extract])

lemma world_frame:
  assumes "w1\<lparr>fs := f, cwd_removed := b\<rparr> = w"
  shows "cwd w1 = cwd w" "os_name w1 = os_name w" "environ w1 = environ w"
    "calcsize_P w1 = calcsize_P w" "create_mode w1 = create_mode w"
    "chdir_errno w1 = chdir_errno w" "mkdir_errno w1 = mkdir_errno w"
    "calls w1 = calls w" "subprocess_call w1 = subprocess_call w"
    "expanduser w1 = expanduser w" "abspath w1 = abspath w"
proof -
  have "cwd (w1\<lparr>fs := f, cwd_removed := b\<rparr>) = cwd w" using assms by simp
  then show "cwd w1 = cwd w" by simp
  have "os_name (w1\<lparr>fs := f, cwd_removed := b\<rparr>) = os_name w" using assms by simp
  then show "os_name w1 = os_name w" by simp
  have "environ (w1\<lparr>fs := f, cwd_removed := b\<rparr>) = environ w" using assms by simp
  then show "environ w1 = environ w" by simp
  have "calcsize_P (w1\<lparr>fs := f, cwd_removed := b\<rparr>) = calcsize_P w" using assms by simp
  then show "calcsize_P w1 = calcsize_P w" by simp
  have "create_mode (w1\<lparr>fs := f, cwd_removed := b\<rparr>) = create_mode w" using assms by simp
  then show "create_mode w1 = create_mode w" by simp
  have "chdir_errno (w1\<lparr>fs := f, cwd_removed := b\<rparr>) = chdir_errno w" using assms by simp
  then show "chdir_errno w1 = chdir_errno w" by simp
  have "mkdir_errno (w1\<lparr>fs := f, cwd_removed := b\<rparr>) = mkdir_errno w" using assms by simp
  then show "mkdir_errno w1 = mkdir_errno w" by simp
  have "calls (w1\<lparr>fs := f, cwd_removed := b\<rparr>) = calls w" using assms by simp
  then show "calls w1 = calls w" by simp
  have "subprocess_call (w1\<lparr>fs := f, cwd_removed := b\<rparr>) = subprocess_call w"
    using assms by simp
  then show "subprocess_call w1 = subprocess_call w" by simp
  have "expanduser (w1\<lparr>fs := f, cwd_removed := b\<rparr>) = expanduser w" using assms by simp
  then show "expanduser w1 = expanduser w" by simp
  have "abspath (w1\<lparr>fs := f, cwd_removed := b\<rparr>) = abspath w" using assms by simp
  then show "abspath w1 = abspath w" by simp
qed

subsection \<open>Directories and the current directory\<close>

lemma is_OSError_os_error [simp]: "is_OSError (os_error en)"
  by (cases en) simp_all

lemma embedded_null_not_OSError [simp]: "\<not> is_OSError embedded_null"
  by (simp add: embedded_null_def)

lemma os_chdir_cases:
  "(os_chdir d w = (Inr (), w\<lparr>cwd := d, cwd_removed := False\<rparr>))
   \<or> (\<exists>e. os_chdir d w = (Inl e, w))"
  by (auto simp: os_chdir_def split: option.splits node.splits)

lemma try_finally_chdir:
  assumes "m w = (r, w1)"
  shows "try_finally m (os_chdir d) w = (r, w1\<lparr>cwd := d, cwd_removed := False\<rparr>)
       \<or> (\<exists>e. try_finally m (os_chdir d) w = (Inl e, w1) \<and> os_chdir d w1 = (Inl e, w1))"
  using os_chdir_cases [of d w1] assms by (auto simp: try_finally_def)

lemma except_pass_world: "snd (except_OSError_pass m w) = snd (m w)"
  by (auto simp: except_OSError_pass_def split: prod.splits sum.splits)

lemma except_pass_makedirs_frame:
  "(snd (except_OSError_pass (os_makedirs p) w))\<lparr>fs := fs w\<rparr> = w"
  unfolding except_pass_world by (rule os_makedirs_world)

lemma init_given_root:
  assumes "parse_version s = Inr vt"
  shows "init s (Some r) w =
           (case fst (os_makedirs r w) of
              Inl e \<Rightarrow> if is_OSError e
                       then Inr \<lparr>version_tuple = vt, temp = False, root = r\<rparr> else Inl e
            | Inr u \<Rightarrow> Inr \<lparr>version_tuple = vt, temp = False, root = r\<rparr>,
            snd (os_makedirs r w))"
  using assms
  by (auto simp: init_def io_bind_def io_return_def except_OSError_pass_def
           split: prod.splits sum.splits)

subsection \<open>The build tool and its answers\<close>

lemma tool_blindD: "tool_blind m \<Longrightarrow> m (with_tool t w) = (fst (m w), with_tool t (snd (m w)))"
  by (simp add: tool_blind_def)

lemma with_tool_fields [simp]:
  "fs (with_tool t w) = fs w" "cwd (with_tool t w) = cwd w" "os_name (with_tool t w) = os_name w"
  "environ (with_tool t w) = environ w" "calcsize_P (with_tool t w) = calcsize_P w"
  "create_mode (with_tool t w) = create_mode w" "has_tls12 (with_tool t w) = has_tls12 w"
  "urlopen (with_tool t w) = urlopen w" "strptime (with_tool t w) = strptime w"
  "unzip (with_tool t w) = unzip w" "mkdtemp (with_tool t w) = mkdtemp w"
  "mkdir_errno (with_tool t w) = mkdir_errno w" "chdir_errno (with_tool t w) = chdir_errno w"
  "cwd_removed (with_tool t w) = cwd_removed w" "calls (with_tool t w) = calls w"
  "expanduser (with_tool t w) = expanduser w"
  "abspath (with_tool t w) = abspath w" "subprocess_call (with_tool t w) = t"
  by (simp_all add: with_tool_def)

lemma with_tool_fs_update [simp]: "(with_tool t w)\<lparr>fs := f\<rparr> = with_tool t (w\<lparr>fs := f\<rparr>)"
  by (simp add: with_tool_def)

lemma with_tool_cwd_update [simp]: "(with_tool t w)\<lparr>cwd := f\<rparr> = with_tool t (w\<lparr>cwd := f\<rparr>)"
  by (simp add: with_tool_def)

lemma with_tool_removed_update [simp]:
  "(with_tool t w)\<lparr>cwd_removed := b\<rparr> = with_tool t (w\<lparr>cwd_removed := b\<rparr>)"
  by (simp add: with_tool_def)

lemma with_tool_calls_update [simp]:
  "(with_tool t w)\<lparr>calls := l\<rparr> = with_tool t (w\<lparr>calls := l\<rparr>)"
  by (simp add: with_tool_def)

lemma with_tool_twice [simp]: "with_tool t (with_tool t' w) = with_tool t w"
  by (simp add: with_tool_def)

lemma with_tool_preds [simp]:
  "exists (with_tool t w) p = exists w p" "isdir (with_tool t w) p = isdir w p"
  "isfile (with_tool t w) = isfile w" "has_parent (with_tool t w) p = has_parent w p"
  by (auto simp: exists_def isdir_def isfile_def has_parent_def)

lemma tool_blind_same [simp]: "tool_blind (\<lambda>w. (r, w))"
  by (simp add: tool_blind_def)

lemma tool_blind_return [simp]: "tool_blind (io_return x)"
  by (simp add: tool_blind_def io_return_def)

lemma tool_blind_raise [simp]: "tool_blind (io_raise e)"
  by (simp add: tool_blind_def io_raise_def)

lemma tool_blind_bind:
  assumes "tool_blind m" "\<And>x. tool_blind (f x)"
  shows "tool_blind (io_bind m f)"
  unfolding tool_blind_def
proof (intro allI)
  fix t w
  obtain r w1 where m: "m w = (r, w1)" by (cases "m w")
  have mt: "m (with_tool t w) = (r, with_tool t w1)"
    using tool_blindD[OF assms(1), of t w] m by simp
  show "io_bind m f (with_tool t w) = (fst (io_bind m f w), with_tool t (snd (io_bind m f w)))"
  proof (cases r)
    case (Inl e)
    then show ?thesis using m mt by (simp add: io_bind_def)
  next
    case (Inr x)
    then show ?thesis using m mt tool_blindD[OF assms(2), of x t w1] by (simp add: io_bind_def)
  qed
qed

lemma tool_blind_if:
  assumes "tool_blind a" "tool_blind b" "\<And>t w. c (with_tool t w) = c w"
  shows "tool_blind (\<lambda>w. if c w then a w else b w)"
  using assms by (simp add: tool_blind_def)

lemma tool_blind_except: "tool_blind m \<Longrightarrow> tool_blind (except_OSError_pass m)"
  unfolding tool_blind_def except_OSError_pass_def
  by (auto split: prod.splits sum.splits)

lemma tool_blind_write_file [simp]: "tool_blind (write_file p d)"
  unfolding tool_blind_def by (auto simp: write_file_def split: option.splits node.splits)

lemma tool_blind_os_utime [simp]: "tool_blind (os_utime p t)"
  unfolding tool_blind_def by (auto simp: os_utime_def)

lemma tool_blind_os_mkdir [simp]: "tool_blind (os_mkdir p)"
  unfolding tool_blind_def by (auto simp: os_mkdir_def split: option.splits)

lemma os_makedirs_with_tool:
  "os_makedirs p (with_tool t w) = (fst (os_makedirs p w), with_tool t (snd (os_makedirs p w)))"
proof (induction p w rule: os_makedirs.induct)
  case (1 name w)
  obtain head tail where ht:
    "(if snd (path_split name) = [] then path_split (fst (path_split name))
      else path_split name) = (head, tail)"
    by (cases "if snd (path_split name) = [] then path_split (fst (path_split name))
               else path_split name")
  note eq = os_makedirs_unfold [OF ht, of w]
  note eqt = os_makedirs_unfold [OF ht, of "with_tool t w"]
  have mk: "os_mkdir name (with_tool t v) = (fst (os_mkdir name v), with_tool t (snd (os_mkdir name v)))"
    for v
    by (rule tool_blindD [OF tool_blind_os_mkdir])
  show ?case
  proof (cases "head \<noteq> [] \<and> tail \<noteq> [] \<and> \<not> exists w head")
    case True
    obtain r w1 where m: "os_makedirs head w = (r, w1)"
      by (cases "os_makedirs head w")
    have mt: "os_makedirs head (with_tool t w) = (r, with_tool t w1)"
      using "1.IH" [OF refl ht [symmetric] True] m by simp
    have a: "os_makedirs name w =
            (case r of
               Inl e \<Rightarrow> if cls e = FileExistsError
                        then (if tail = ''.'' then (Inr (), w1) else os_mkdir name w1)
                        else (Inl e, w1)
             | Inr u \<Rightarrow> if tail = ''.'' then (Inr (), w1) else os_mkdir name w1)"
      unfolding eq using True by (simp add: m)
    have b: "os_makedirs name (with_tool t w) =
            (case r of
               Inl e \<Rightarrow> if cls e = FileExistsError
                        then (if tail = ''.'' then (Inr (), with_tool t w1)
                              else os_mkdir name (with_tool t w1))
                        else (Inl e, with_tool t w1)
             | Inr u \<Rightarrow> if tail = ''.'' then (Inr (), with_tool t w1)
                        else os_mkdir name (with_tool t w1))"
      unfolding eqt using True by (simp add: mt)
    show ?thesis
      unfolding a b using mk [of w1] by (simp split: sum.splits)
  next
    case False
    have a: "os_makedirs name w = os_mkdir name w"
      unfolding eq using False by auto
    have b: "os_makedirs name (with_tool t w) = os_mkdir name (with_tool t w)"
      unfolding eqt using False by auto
    show ?thesis
      unfolding a b by (rule mk)
  qed
qed

lemma tool_blind_os_makedirs [simp]: "tool_blind (os_makedirs p)"
  unfolding tool_blind_def by (simp add: os_makedirs_with_tool)

lemma tool_blind_rmtree [simp]: "tool_blind (shutil_rmtree p)"
  unfolding tool_blind_def by (auto simp: shutil_rmtree_def split: option.splits node.splits cong: if_cong)

lemma tool_blind_readlines [simp]: "tool_blind (readlines p)"
  unfolding tool_blind_def by (auto simp: readlines_def split: option.splits node.splits)

lemma tool_blind_chmod_tools [simp]: "tool_blind (chmod_tools z)"
  unfolding tool_blind_def by (auto simp: chmod_tools_def Let_def cong: if_cong)

lemma tool_blind_os_chdir [simp]: "tool_blind (os_chdir p)"
  unfolding tool_blind_def by (auto simp: os_chdir_def split: option.splits node.splits)

lemma tool_blind_os_getcwd [simp]: "tool_blind os_getcwd"
  unfolding tool_blind_def by (auto simp: os_getcwd_def)

lemma tool_blind_extract_member [simp]: "tool_blind (extract_member dest member)"
  unfolding tool_blind_def
proof (intro allI)
  fix t w
  let ?t = "os_path_join dest (fst member)"
  let ?A = "if dirname ?t \<noteq> [] \<and> \<not> exists w (dirname ?t) then os_makedirs (dirname ?t)
            else io_return ()"
  let ?B = "\<lambda>(u::unit) w1. case snd member of
              None \<Rightarrow> if isdir w1 ?t then (Inr (), w1) else os_mkdir ?t w1
            | Some data \<Rightarrow> write_file ?t data w1"
  have A: "tool_blind ?A" by simp
  have B: "tool_blind (?B x)" for x
  proof (cases "snd member")
    case None
    have "tool_blind (\<lambda>w1. if isdir w1 ?t then (Inr (), w1) else os_mkdir ?t w1)"
      by (rule tool_blind_if[where a = "\<lambda>w. (Inr (), w)" and b = "os_mkdir ?t"]) simp_all
    then show ?thesis using None by simp
  next
    case (Some d)
    have "tool_blind (\<lambda>w1. write_file ?t d w1)" by simp
    then show ?thesis using Some by simp
  qed
  have tb: "tool_blind (io_bind ?A ?B)" using A B by (rule tool_blind_bind)
  have 1: "extract_member dest member w = io_bind ?A ?B w"
    by (simp add: extract_member_def Let_def)
  have 2: "extract_member dest member (with_tool t w) = io_bind ?A ?B (with_tool t w)"
    by (simp add: extract_member_def Let_def)
  show "extract_member dest member (with_tool t w)
      = (fst (extract_member dest member w), with_tool t (snd (extract_member dest member w)))"
    unfolding 1 2 by (rule tool_blindD[OF tb])
qed

lemma tool_blind_extract_members [simp]: "tool_blind (extract_members dest ms)"
proof (induction ms)
  case Nil
  have "extract_members dest [] = (\<lambda>w. (Inr (), w))" by (rule ext) simp
  then show ?case by (simp only: tool_blind_same)
next
  case (Cons m ms)
  show ?case unfolding extract_members_bind
    by (rule tool_blind_bind) (simp_all add: Cons del: extract_members.simps)
qed

lemma tool_blind_extractall [simp]: "tool_blind (extractall z dest)"
  unfolding tool_blind_def
proof (intro allI)
  fix t w
  show "extractall z dest (with_tool t w)
      = (fst (extractall z dest w), with_tool t (snd (extractall z dest w)))"
    using tool_blindD[OF tool_blind_extract_members, where w = w and t = t]
    by (auto simp: extractall_def split: option.splits node.splits sum.splits)
qed

lemma tool_blind_download [simp]: "tool_blind (download self)"
  unfolding tool_blind_def
proof (intro allI)
  fix t w
  have 1: "tool_blind (io_bind (write_file p b) (\<lambda>u. os_utime p t))" for p b t
    by (rule tool_blind_bind) simp_all
  show "download self (with_tool t w) = (fst (download self w), with_tool t (snd (download self w)))"
    using tool_blindD[OF 1, where w = w and t = t]
          tool_blindD[OF tool_blind_write_file, where w = w and t = t]
    unfolding download_alt
    by (auto split: sum.splits option.splits)
qed

lemma tool_blind_unpack [simp]: "tool_blind (unpack self ov)"
proof -
  have 1: "tool_blind (\<lambda>w. if \<not> exists w (zippath_of self) then download self w else (Inr (), w))"
    by (rule tool_blind_if[where a = "download self" and b = "\<lambda>w. (Inr (), w)"]) simp_all
  have 2: "tool_blind (\<lambda>w. if \<not> ov then io_raise (already_exists (zipfold_of self)) w
                         else shutil_rmtree (zipfold_of self) w)"
    by (cases ov) simp_all
  have 3: "tool_blind (\<lambda>w. if exists w (zipfold_of self)
               then (if \<not> ov then io_raise (already_exists (zipfold_of self)) w
                     else shutil_rmtree (zipfold_of self) w)
               else (Inr (), w))"
    by (rule tool_blind_if[where b = "\<lambda>w. (Inr (), w)", OF 2]) simp_all
  show ?thesis unfolding unpack_def
    by (rule tool_blind_bind[OF 1]) (rule tool_blind_bind[OF 3], simp)
qed

lemma tool_blind_patch [simp]: "tool_blind (patch_cmakelists z)"
  unfolding patch_cmakelists_def by (rule tool_blind_bind) simp_all

lemma tool_blind_write_svn [simp]: "tool_blind (write_svn_revision self z)"
  unfolding tool_blind_def
proof (intro allI)
  fix t w
  show "write_svn_revision self z (with_tool t w)
      = (fst (write_svn_revision self z w), with_tool t (snd (write_svn_revision self z w)))"
    using tool_blindD[OF tool_blind_write_file, where w = w and t = t]
    by (simp add: write_svn_revision_def)
qed

lemma tool_blind_extract [simp]: "tool_blind (geos_extract self ov)"
  unfolding geos_extract_def
  by (rule tool_blind_bind, simp, rule tool_blind_bind, simp, rule tool_blind_bind, simp, simp)

lemma reports_fields [simp]:
  "fs (reports st w) = fs w" "cwd (reports st w) = cwd w" "os_name (reports st w) = os_name w"
  "environ (reports st w) = environ w" "calcsize_P (reports st w) = calcsize_P w"
  "expanduser (reports st w) = expanduser w" "abspath (reports st w) = abspath w"
  "calls (reports st w) = calls w" "cwd_removed (reports st w) = cwd_removed w"
  "subprocess_call (reports st w) = (\<lambda>args env d. Inr (st args env d))"
  by (simp_all add: reports_def)

lemma reports_calls_update [simp]:
  "(reports st w)\<lparr>calls := l\<rparr> = reports st (w\<lparr>calls := l\<rparr>)"
  by (simp add: reports_def)

lemma reports_twice [simp]: "reports st (reports st' w) = reports st w"
  by (simp add: reports_def)

lemma status_blindD:
  "status_blind m \<Longrightarrow>
   m (reports st w) = (fst (m (reports (\<lambda>args env d. 0) w)),
                       reports st (snd (m (reports (\<lambda>args env d. 0) w))))"
  unfolding status_blind_def by blast

lemma status_blind_stable:
  assumes "status_blind m" "m (reports (\<lambda>args env d. 0) w) = (r, w1)"
  shows "reports (\<lambda>args env d. 0) w1 = w1"
proof -
  have "m (reports (\<lambda>args env d. 0) w)
      = (fst (m (reports (\<lambda>args env d. 0) w)),
         reports (\<lambda>args env d. 0) (snd (m (reports (\<lambda>args env d. 0) w))))"
    using assms(1) by (rule status_blindD)
  then have "(r, w1) = (fst (r, w1), reports (\<lambda>args env d. 0) (snd (r, w1)))"
    unfolding assms(2) .
  then show ?thesis by simp
qed

lemma tool_blind_status_blind:
  assumes "tool_blind m"
  shows "status_blind m"
  unfolding status_blind_def
proof (intro allI)
  fix st w
  have a: "m (reports st' w) = (fst (m w), reports st' (snd (m w)))" for st'
    unfolding reports_def using assms by (rule tool_blindD)
  show "m (reports st w) = (fst (m (reports (\<lambda>args env d. 0) w)),
                            reports st (snd (m (reports (\<lambda>args env d. 0) w))))"
    unfolding a by simp
qed

lemma status_blind_bind:
  assumes "status_blind m" "\<And>x. status_blind (f x)"
  shows "status_blind (io_bind m f)"
  unfolding status_blind_def
proof (intro allI)
  fix st w
  let ?w0 = "reports (\<lambda>args env d. 0) w"
  obtain r w1 where m: "m ?w0 = (r, w1)" by (cases "m ?w0")
  have s1: "reports (\<lambda>args env d. 0) w1 = w1" using assms(1) m by (rule status_blind_stable)
  have mt: "m (reports st w) = (r, reports st w1)"
    using status_blindD[OF assms(1), of st w] m by simp
  show "io_bind m f (reports st w)
      = (fst (io_bind m f ?w0), reports st (snd (io_bind m f ?w0)))"
  proof (cases r)
    case (Inl e)
    then show ?thesis using m mt by (simp add: io_bind_def)
  next
    case (Inr x)
    then show ?thesis
      using m mt status_blindD[OF assms(2), of x st w1] s1 by (simp add: io_bind_def)
  qed
qed

lemma status_blind_call:
  assumes "status_blind k"
  shows "status_blind (io_bind (call args env) (\<lambda>status. k))"
  unfolding status_blind_def
proof (intro allI)
  fix st and w :: world
  let ?v = "w\<lparr>calls := calls w @ [(args, env, cwd w)]\<rparr>"
  have "io_bind (call args env) (\<lambda>status. k) (reports st' w)
        = (if list_ex has_null args then (Inl embedded_null, reports st' w)
           else k (reports st' ?v))" for st'
    by (simp add: io_bind_def call_def)
  then show "io_bind (call args env) (\<lambda>status. k) (reports st w)
      = (fst (io_bind (call args env) (\<lambda>status. k) (reports (\<lambda>args env d. 0) w)),
         reports st (snd (io_bind (call args env) (\<lambda>status. k) (reports (\<lambda>args env d. 0) w))))"
    using status_blindD[OF assms, of st ?v] by simp
qed

lemma status_blind_try_finally:
  assumes "status_blind m" "status_blind fin"
  shows "status_blind (try_finally m fin)"
  unfolding status_blind_def
proof (intro allI)
  fix st w
  let ?w0 = "reports (\<lambda>args env d. 0) w"
  obtain r w1 where m: "m ?w0 = (r, w1)" by (cases "m ?w0")
  have s1: "reports (\<lambda>args env d. 0) w1 = w1" using assms(1) m by (rule status_blind_stable)
  have mt: "m (reports st w) = (r, reports st w1)"
    using status_blindD[OF assms(1), of st w] m by simp
  obtain r2 w2 where f: "fin w1 = (r2, w2)" by (cases "fin w1")
  have ft: "fin (reports st w1) = (r2, reports st w2)"
    using status_blindD[OF assms(2), of st w1] f s1 by simp
  show "try_finally m fin (reports st w)
      = (fst (try_finally m fin ?w0), reports st (snd (try_finally m fin ?w0)))"
    using m mt f ft by (cases r2) (simp_all add: try_finally_def)
qed

lemma status_blind_build_calls: "status_blind (build_calls b i c bo be)"
  unfolding build_calls_def
  by (intro status_blind_bind status_blind_call tool_blind_status_blind tool_blind_except
        tool_blind_os_makedirs tool_blind_os_chdir tool_blind_return)

lemma build_unfold:
  "build self dir n w =
     (case geos_extract self True w of
        (Inl e, w1) \<Rightarrow> (Inl e, w1)
      | (Inr u, w1) \<Rightarrow>
          io_bind os_getcwd
            (\<lambda>cwd0. try_finally
               (build_calls (os_path_join (zipfold_of self) ''build'')
                  (abspath w1 (case dir of None \<Rightarrow> expanduser w1 ''~/.local/share/libgeos''
                                       | Some d \<Rightarrow> d))
                  (config_opts w1 self
                     (abspath w1 (case dir of None \<Rightarrow> expanduser w1 ''~/.local/share/libgeos''
                                          | Some d \<Rightarrow> d)))
                  (build_opts w1 self n) (build_env w1 n))
               (os_chdir cwd0)) w1)"
  by (simp add: build_def io_bind_def Let_def split: prod.splits sum.splits)

lemma options_reports [simp]:
  "config_opts (reports st w) = config_opts w"
  "build_opts (reports st w) = build_opts w"
  "build_env (reports st w) = build_env w"
  by (intro ext, simp add: config_opts_def build_opts_def build_env_def)+

subsection \<open>The patches\<close>

lemma join_plain:
  "z \<noteq> [] \<Longrightarrow> \<not> suffix ''/'' z \<Longrightarrow> \<not> prefix ''/'' n \<Longrightarrow> os_path_join z n = z @ ''/'' @ n"
  by (simp add: os_path_join_def)

lemma not_suffix_slash_append: "n \<noteq> [] \<Longrightarrow> last n \<noteq> CHR ''/'' \<Longrightarrow> \<not> suffix ''/'' (z @ n)"
  by (auto simp: suffix_def) (metis last_appendR last_snoc)

lemma cmakefile_shape: "cmakefile_of (zipfold_of self) = zipfold_of self @ ''/capi/CMakeLists.txt''"
proof -
  have z: "zipfold_of self \<noteq> []" "\<not> suffix ''/'' (zipfold_of self)" using zipfold_shape by auto
  have 1: "os_path_join (zipfold_of self) ''capi'' = zipfold_of self @ ''/'' @ ''capi''"
    using z by (intro join_plain) simp_all
  have 2: "\<not> suffix ''/'' (zipfold_of self @ ''/'' @ ''capi'')"
    using not_suffix_slash_append[of "''/capi''" "zipfold_of self"] by simp
  have "os_path_join (zipfold_of self @ ''/'' @ ''capi'') ''CMakeLists.txt''
      = (zipfold_of self @ ''/'' @ ''capi'') @ ''/'' @ ''CMakeLists.txt''"
    using 2 by (intro join_plain) simp_all
  then show ?thesis unfolding cmakefile_of_def 1 by simp
qed

lemma svn_hfile_shape: "svn_hfile_of (zipfold_of self) = zipfold_of self @ ''/geos_svn_revision.h''"
proof -
  have z: "zipfold_of self \<noteq> []" "\<not> suffix ''/'' (zipfold_of self)" using zipfold_shape by auto
  have "os_path_join (zipfold_of self) ''geos_svn_revision.h''
      = zipfold_of self @ ''/'' @ ''geos_svn_revision.h''"
    using z by (intro join_plain) simp_all
  then show ?thesis unfolding svn_hfile_of_def by simp
qed

lemma hfile_not_cmakefile: "svn_hfile_of (zipfold_of self) \<noteq> cmakefile_of (zipfold_of self)"
  by (simp add: cmakefile_shape svn_hfile_shape)



lemma content_at_chmod:
  "content_at (snd (chmod_tools z w)) p = content_at w p"
proof (cases "fs w p")
  case None
  then show ?thesis by (simp add: chmod_tools_def content_at_def Let_def)
next
  case (Some nd)
  then show ?thesis by (cases nd) (simp_all add: chmod_tools_def content_at_def Let_def)
qed


lemma patch_effect:
  assumes "patch_cmakelists z w = (Inr (), w')"
  shows "\<exists>c m. fs w (cmakefile_of z) = Some (File c m) \<and> utf8_valid c
           \<and> w' = w\<lparr>fs := (fs w)(cmakefile_of z \<mapsto>
                     File (patch_lines (split_lines (translate_newlines c))) m)\<rparr>"
proof (cases "fs w (cmakefile_of z)")
  case None
  then show ?thesis using assms
    by (simp add: patch_cmakelists_def io_bind_def readlines_def split: if_splits)
next
  case (Some nd)
  show ?thesis
  proof (cases nd)
    case Dir
    then show ?thesis using assms Some
      by (simp add: patch_cmakelists_def io_bind_def readlines_def split: if_splits)
  next
    case (File c m)
    then show ?thesis using assms Some
      by (auto simp: patch_cmakelists_def io_bind_def readlines_def write_file_def
               split: if_splits)
  qed
qed

lemma write_svn_effect:
  assumes "write_svn_revision self z w = (Inr (), w')"
  shows "fs w' = (if tuple_lt (version_tuple self) [3, 6, 0] \<and> fs w (svn_hfile_of z) = None
                  then (fs w)(svn_hfile_of z \<mapsto> File ''#define GEOS_SVN_REVISION 0'' (create_mode w))
                  else fs w)"
  using assms
  by (auto simp: write_svn_revision_def write_file_def exists_def split: if_splits)

lemma extract_steps:
  assumes "fst (geos_extract self ov w) = Inr ()"
  shows "\<exists>w2 w3. fst (unpack self ov w) = Inr ()
           \<and> chmod_tools (zipfold_of self) (snd (unpack self ov w)) = (Inr (), w2)
           \<and> patch_cmakelists (zipfold_of self) w2 = (Inr (), w3)
           \<and> write_svn_revision self (zipfold_of self) w3 = (Inr (), snd (geos_extract self ov w))"
proof -
  obtain r1 w1 where u: "unpack self ov w = (r1, w1)" by (cases "unpack self ov w")
  obtain r2 w2 where c: "chmod_tools (zipfold_of self) w1 = (r2, w2)"
    by (cases "chmod_tools (zipfold_of self) w1")
  obtain r3 w3 where p: "patch_cmakelists (zipfold_of self) w2 = (r3, w3)"
    by (cases "patch_cmakelists (zipfold_of self) w2")
  obtain r4 w4 where s: "write_svn_revision self (zipfold_of self) w3 = (r4, w4)"
    by (cases "write_svn_revision self (zipfold_of self) w3")
  show ?thesis using assms u c p s
    by (auto simp: geos_extract_def io_bind_def split: sum.splits)
qed

lemma prefix_translate:
  "CR \<notin> set m \<Longrightarrow> prefix m c \<Longrightarrow> prefix m (translate_newlines c)"
proof (induction c arbitrary: m rule: translate_newlines.induct)
  case 1
  then show ?case by simp
next
  case (2 x)
  then show ?case by (cases m) auto
next
  case (3 x d r)
  show ?case
  proof (cases m)
    case Nil
    then show ?thesis by simp
  next
    case (Cons y m')
    then have x: "x = y" "x \<noteq> CR" "prefix m' (d # r)" "CR \<notin> set m'"
      using "3.prems" by auto
    then have "prefix m' (translate_newlines (d # r))" using "3.IH"(3) by simp
    then show ?thesis using x Cons by simp
  qed
qed

lemma sublist_translate:
  "CR \<notin> set m \<Longrightarrow> NL \<notin> set m \<Longrightarrow> sublist m c \<Longrightarrow> sublist m (translate_newlines c)"
proof (induction c rule: translate_newlines.induct)
  case 1
  then show ?case by simp
next
  case (2 x)
  then show ?case by (cases m) (auto simp: sublist_Cons_right)
next
  case (3 x d r)
  show ?case
  proof (cases "prefix m (x # d # r)")
    case True
    then have "prefix m (translate_newlines (x # d # r))"
      using "3.prems"(1) by (rule prefix_translate[rotated])
    then show ?thesis by (rule prefix_imp_sublist)
  next
    case False
    then have s: "sublist m (d # r)" using "3.prems"(3) by (simp add: sublist_Cons_right)
    show ?thesis
    proof (cases "x = CR")
      case xc: True
      show ?thesis
      proof (cases "d = NL")
        case True
        have "\<not> prefix m (d # r) \<or> m = []" using True "3.prems"(2) by (cases m) auto
        then have "sublist m r" using s by (auto simp: sublist_Cons_right)
        then have "sublist m (translate_newlines r)" using "3.IH"(1) xc True "3.prems" by simp
        then show ?thesis using xc True by (simp add: sublist_Cons_right)
      next
        case False
        have "sublist m (translate_newlines (d # r))" using "3.IH"(2) xc False "3.prems" s by simp
        then show ?thesis using xc False by (simp add: sublist_Cons_right)
      qed
    next
      case False
      have "sublist m (translate_newlines (d # r))" using "3.IH"(3) False "3.prems" s by simp
      then show ?thesis using False by (simp add: sublist_Cons_right)
    qed
  qed
qed

lemma sublist_some_line:
  assumes "NL \<notin> set old" "old \<noteq> []" "sublist old t"
  shows "\<exists>l \<in> set (split_lines t). sublist old l"
proof (rule ccontr)
  assume "\<not> (\<exists>l \<in> set (split_lines t). sublist old l)"
  then have "\<forall>l \<in> set (split_lines t). \<not> sublist old l" by blast
  moreover have "\<forall>l \<in> set (butlast (split_lines t)). l \<noteq> [] \<and> last l = NL"
    using split_lines_ends by blast
  ultimately have "\<not> sublist old (concat (split_lines t))"
    by (rule not_sublist_concat[OF assms(1,2)])
  then show False using assms(3) by (simp add: concat_split_lines)
qed

lemma oldtext_in_some_line:
  assumes "sublist oldtext c"
  shows "\<exists>l \<in> set (lines_read c). sublist oldtext l"
proof -
  have 1: "CR \<notin> set oldtext" "NL \<notin> set oldtext" "oldtext \<noteq> []"
    by (simp_all add: oldtext_def CR_def NL_def)
  have "sublist oldtext (translate_newlines c)" using 1(1,2) assms by (rule sublist_translate)
  then show ?thesis unfolding lines_read_def using 1(2,3) by (intro sublist_some_line)
qed

lemma lines_read_ends: "\<forall>l \<in> set (butlast (lines_read c)). l \<noteq> [] \<and> last l = NL"
  unfolding lines_read_def using split_lines_ends by blast

lemma lines_read_concat: "CR \<notin> set c \<Longrightarrow> concat (lines_read c) = c"
  by (simp add: lines_read_def translate_newlines_id concat_split_lines)


subsection \<open>The record of the calls\<close>

lemma fs_frame:
  assumes "w1\<lparr>fs := f\<rparr> = w"
  shows "calls w1 = calls w" "cwd w1 = cwd w" "cwd_removed w1 = cwd_removed w"
proof -
  have "calls (w1\<lparr>fs := f\<rparr>) = calls w" using assms by simp
  then show "calls w1 = calls w" by simp
  have "cwd (w1\<lparr>fs := f\<rparr>) = cwd w" using assms by simp
  then show "cwd w1 = cwd w" by simp
  have "cwd_removed (w1\<lparr>fs := f\<rparr>) = cwd_removed w" using assms by simp
  then show "cwd_removed w1 = cwd_removed w" by simp
qed

lemma makedirs_pass_log:
  assumes "except_OSError_pass (os_makedirs p) w = (r, w1)"
  shows "calls w1 = calls w" "cwd w1 = cwd w" "cwd_removed w1 = cwd_removed w"
proof -
  have "w1\<lparr>fs := fs w\<rparr> = w"
    using except_pass_makedirs_frame [where p = p and w = w] assms by simp
  then show "calls w1 = calls w" "cwd w1 = cwd w" "cwd_removed w1 = cwd_removed w"
    by (rule fs_frame)+
qed

lemma os_chdir_log:
  assumes "os_chdir d w = (r, w1)"
  shows "calls w1 = calls w" "r = Inr () \<Longrightarrow> cwd w1 = d" "r = Inr () \<Longrightarrow> \<not> cwd_removed w1"
  using assms by (auto simp: os_chdir_def split: option.splits node.splits if_splits)

lemma call_log:
  assumes "call args env w = (r, w1)"
  shows "cwd w1 = cwd w" "cwd_removed w1 = cwd_removed w"
    "calls w1 = calls w \<or> calls w1 = calls w @ [(args, env, cwd w)]"
    "r = Inr st \<Longrightarrow> calls w1 = calls w @ [(args, env, cwd w)]"
  using assms by (auto simp: call_def split: sum.splits if_splits)

lemma io_bind_eq:
  "m w = (r, w1) \<Longrightarrow> io_bind m f w = (case r of Inl e \<Rightarrow> (Inl e, w1) | Inr x \<Rightarrow> f x w1)"
  by (simp add: io_bind_def)

lemma build_calls_log:
  fixes b i :: string and co bo :: "string list" and be :: "string \<Rightarrow> string option"
    and w :: world
  defines "c1 \<equiv> ([''cmake'', ''..''] @ co, None :: (string \<Rightarrow> string option) option, b)"
    and "c2 \<equiv> ([''cmake'', ''--build'', ''.''] @ bo, Some be, b)"
  assumes B: "build_calls b i co bo be w = (r, w')"
  shows "calls w' = calls w \<or> calls w' = calls w @ [c1] \<or> calls w' = calls w @ [c1, c2]"
    and "r = Inr () \<Longrightarrow> calls w' = calls w @ [c1, c2]"
proof -
  obtain ra wa where A: "except_OSError_pass (os_makedirs b) w = (ra, wa)"
    by (cases "except_OSError_pass (os_makedirs b) w")
  obtain rb wb where Bc: "os_chdir b wa = (rb, wb)"
    by (cases "os_chdir b wa")
  obtain rc wc where C: "call ([''cmake'', ''..''] @ co) None wb = (rc, wc)"
    by (cases "call ([''cmake'', ''..''] @ co) None wb")
  obtain rd wd where D: "except_OSError_pass (os_makedirs i) wc = (rd, wd)"
    by (cases "except_OSError_pass (os_makedirs i) wc")
  obtain re we where E: "call ([''cmake'', ''--build'', ''.''] @ bo) (Some be) wd = (re, we)"
    by (cases "call ([''cmake'', ''--build'', ''.''] @ bo) (Some be) wd")
  note la = makedirs_pass_log [OF A]
  note lb = os_chdir_log [OF Bc]
  note lc = call_log [OF C]
  note ld = makedirs_pass_log [OF D]
  note le = call_log [OF E]
  let ?K4 = "io_bind (call ([''cmake'', ''--build'', ''.''] @ bo) (Some be))
               (\<lambda>status. io_return ())"
  let ?K3 = "io_bind (except_OSError_pass (os_makedirs i)) (\<lambda>u. ?K4)"
  let ?K2 = "io_bind (call ([''cmake'', ''..''] @ co) None) (\<lambda>status. ?K3)"
  let ?K1 = "io_bind (os_chdir b) (\<lambda>u. ?K2)"
  have e0: "build_calls b i co bo be w = (case ra of Inl e \<Rightarrow> (Inl e, wa) | Inr u \<Rightarrow> ?K1 wa)"
    unfolding build_calls_def
    by (rule io_bind_eq [where m = "except_OSError_pass (os_makedirs b)", OF A])
  have e1: "?K1 wa = (case rb of Inl e \<Rightarrow> (Inl e, wb) | Inr u \<Rightarrow> ?K2 wb)"
    by (rule io_bind_eq [where m = "os_chdir b", OF Bc])
  have e2: "?K2 wb = (case rc of Inl e \<Rightarrow> (Inl e, wc) | Inr s \<Rightarrow> ?K3 wc)"
    by (rule io_bind_eq [where m = "call ([''cmake'', ''..''] @ co) None", OF C])
  have e3: "?K3 wc = (case rd of Inl e \<Rightarrow> (Inl e, wd) | Inr u \<Rightarrow> ?K4 wd)"
    by (rule io_bind_eq [where m = "except_OSError_pass (os_makedirs i)", OF D])
  have e4: "?K4 wd = (case re of Inl e \<Rightarrow> (Inl e, we) | Inr s \<Rightarrow> (Inr (), we))"
    unfolding io_bind_eq [where m = "call ([''cmake'', ''--build'', ''.''] @ bo) (Some be)", OF E]
      io_return_def ..
  have eq: "(r, w') =
      (case ra of Inl e \<Rightarrow> (Inl e, wa) | Inr u \<Rightarrow>
        (case rb of Inl e \<Rightarrow> (Inl e, wb) | Inr u \<Rightarrow>
          (case rc of Inl e \<Rightarrow> (Inl e, wc) | Inr s \<Rightarrow>
            (case rd of Inl e \<Rightarrow> (Inl e, wd) | Inr u \<Rightarrow>
              (case re of Inl e \<Rightarrow> (Inl e, we) | Inr s \<Rightarrow> (Inr (), we))))))"
    unfolding B [symmetric] e0 e1 e2 e3 e4 ..
  show "calls w' = calls w \<or> calls w' = calls w @ [c1] \<or> calls w' = calls w @ [c1, c2]"
  proof (cases ra)
    case (Inl e)
    then show ?thesis using eq la by simp
  next
    case ra: (Inr u)
    show ?thesis
    proof (cases rb)
      case (Inl e)
      then show ?thesis using eq ra la lb by simp
    next
      case rb: (Inr u)
      have cb: "cwd wb = b" using lb(2) rb by simp
      have kc: "calls wc = calls w \<or> calls wc = calls w @ [c1]"
        using lc(3) cb la(1) lb(1) unfolding c1_def by simp
      show ?thesis
      proof (cases rc)
        case (Inl e)
        then show ?thesis using eq ra rb kc by auto
      next
        case rc: (Inr s)
        have kc1: "calls wc = calls w @ [c1]"
          using lc(4) [OF rc] cb la(1) lb(1) unfolding c1_def by simp
        have cd: "cwd wd = b" using ld(2) lc(1) cb by simp
        show ?thesis
        proof (cases rd)
          case (Inl e)
          then show ?thesis using eq ra rb rc kc1 ld(1) by simp
        next
          case rd: (Inr u)
          have "calls we = calls wd \<or> calls we = calls wd @ [c2]"
            using le(3) cd unfolding c2_def by simp
          then have "calls we = calls w @ [c1] \<or> calls we = calls w @ [c1, c2]"
            using ld(1) kc1 by auto
          moreover have "w' = we"
            using eq ra rb rc rd by (simp split: sum.splits)
          ultimately show ?thesis by auto
        qed
      qed
    qed
  qed
  show "calls w' = calls w @ [c1, c2]" if ok: "r = Inr ()"
  proof -
    from eq ok obtain u1 u2 s1 u3 s2 where
      r: "ra = Inr u1" "rb = Inr u2" "rc = Inr s1" "rd = Inr u3" "re = Inr s2" and w': "w' = we"
      by (auto split: sum.splits)
    have cb: "cwd wb = b" using lb(2) r(2) by simp
    have kc1: "calls wc = calls w @ [c1]"
      using lc(4) [OF r(3)] cb la(1) lb(1) unfolding c1_def by simp
    have cd: "cwd wd = b" using ld(2) lc(1) cb by simp
    have "calls we = calls wd @ [c2]"
      using le(4) [OF r(5)] cd unfolding c2_def by simp
    then show ?thesis using w' ld(1) kc1 by simp
  qed
qed

lemma options_frame:
  assumes "os_name w1 = os_name w" "environ w1 = environ w" "calcsize_P w1 = calcsize_P w"
  shows "config_opts w1 = config_opts w" "build_opts w1 = build_opts w" "build_env w1 = build_env w"
  using assms by (intro ext, simp add: config_opts_def build_opts_def build_env_def)+

lemma build_cases [case_names extract_fails cwd_gone restored stuck]:
  fixes self :: geos_library and dir :: "string option" and n :: int and w :: world
  defines "D \<equiv> abspath w (case dir of None \<Rightarrow> expanduser w ''~/.local/share/libgeos''
                                      | Some d \<Rightarrow> d)"
  defines "steps \<equiv> build_calls (os_path_join (zipfold_of self) ''build'') D
                      (config_opts w self D) (build_opts w self n) (build_env w n)"
  obtains
    e w1 where "geos_extract self True w = (Inl e, w1)" "build self dir n w = (Inl e, w1)"
  | w1 where "geos_extract self True w = (Inr (), w1)" "cwd_removed w1"
      "build self dir n w = (Inl (os_error ENOENT), w1)"
  | w1 r wm where "geos_extract self True w = (Inr (), w1)" "\<not> cwd_removed w1"
      "steps w1 = (r, wm)"
      "build self dir n w = (r, wm\<lparr>cwd := cwd w, cwd_removed := False\<rparr>)"
  | w1 r wm e where "geos_extract self True w = (Inr (), w1)" "\<not> cwd_removed w1"
      "steps w1 = (r, wm)" "os_chdir (cwd w) wm = (Inl e, wm)"
      "build self dir n w = (Inl e, wm)"
proof -
  obtain r1 w1 where x: "geos_extract self True w = (r1, w1)"
    by (cases "geos_extract self True w")
  have fr: "w1\<lparr>fs := fs w, cwd_removed := cwd_removed w\<rparr> = w"
    using extract_frame [where self = self and ov = True and w = w] x by simp
  note f = world_frame [OF fr]
  note o = options_frame [OF f(2) f(3) f(4)]
  show thesis
  proof (cases r1)
    case (Inl e)
    then have "build self dir n w = (Inl e, w1)"
      using x by (simp add: build_unfold)
    then show thesis using x Inl that(1) by simp
  next
    case (Inr u)
    have b: "build self dir n w =
               io_bind os_getcwd (\<lambda>cwd0. try_finally steps (os_chdir cwd0)) w1"
      unfolding build_unfold x Inr steps_def D_def by (cases dir) (simp_all add: o f(10) f(11))
    show thesis
    proof (cases "cwd_removed w1")
      case True
      then have "build self dir n w = (Inl (os_error ENOENT), w1)"
        unfolding b by (simp add: io_bind_def os_getcwd_def)
      then show thesis using x Inr True that(2) by simp
    next
      case False
      obtain r wm where s: "steps w1 = (r, wm)"
        by (cases "steps w1")
      have b2: "build self dir n w = try_finally steps (os_chdir (cwd w)) w1"
        unfolding b using False f(1) by (simp add: io_bind_def os_getcwd_def)
      from try_finally_chdir [where m = steps and d = "cwd w", OF s] show thesis
      proof
        assume "try_finally steps (os_chdir (cwd w)) w1
                  = (r, wm\<lparr>cwd := cwd w, cwd_removed := False\<rparr>)"
        then show thesis using b2 x Inr False s that(3) by simp
      next
        assume "\<exists>e. try_finally steps (os_chdir (cwd w)) w1 = (Inl e, wm)
                    \<and> os_chdir (cwd w) wm = (Inl e, wm)"
        then show thesis using b2 x Inr False s that(4) by auto
      qed
    qed
  qed
qed

lemma extract_calls: "calls (snd (geos_extract self ov w)) = calls w"
  by (rule world_frame(8) [OF extract_frame])

lemma build_log:
  fixes self :: geos_library and dir :: "string option" and n :: int and w :: world
  defines "D \<equiv> abspath w (case dir of None \<Rightarrow> expanduser w ''~/.local/share/libgeos''
                                      | Some d \<Rightarrow> d)"
  defines "c1 \<equiv> ([''cmake'', ''..''] @ config_opts w self D,
                   None :: (string \<Rightarrow> string option) option,
                   os_path_join (zipfold_of self) ''build'')"
    and "c2 \<equiv> ([''cmake'', ''--build'', ''.''] @ build_opts w self n,
                   Some (build_env w n),
                   os_path_join (zipfold_of self) ''build'')"
  shows "calls (snd (build self dir n w)) = calls w
       \<or> calls (snd (build self dir n w)) = calls w @ [c1]
       \<or> calls (snd (build self dir n w)) = calls w @ [c1, c2]"
    and "fst (build self dir n w) = Inr () \<Longrightarrow>
         calls (snd (build self dir n w)) = calls w @ [c1, c2]"
proof -
  have "(calls (snd (build self dir n w)) = calls w
         \<or> calls (snd (build self dir n w)) = calls w @ [c1]
         \<or> calls (snd (build self dir n w)) = calls w @ [c1, c2])
      \<and> (fst (build self dir n w) = Inr () \<longrightarrow>
           calls (snd (build self dir n w)) = calls w @ [c1, c2])"
  proof (cases rule: build_cases [of self w dir n])
    case (extract_fails e w1)
    have "calls w1 = calls w"
      using extract_calls [of self True w] extract_fails(1) by simp
    then show ?thesis using extract_fails(2) by simp
  next
    case (cwd_gone w1)
    have "calls w1 = calls w"
      using extract_calls [of self True w] cwd_gone(1) by simp
    then show ?thesis using cwd_gone(3) by simp
  next
    case (restored w1 r wm)
    have c: "calls w1 = calls w"
      using extract_calls [of self True w] restored(1) by simp
    note l = build_calls_log [OF restored(3)]
    show ?thesis
      using l(1) l(2) c unfolding restored(4) c1_def c2_def D_def by simp
  next
    case (stuck w1 r wm e)
    have c: "calls w1 = calls w"
      using extract_calls [of self True w] stuck(1) by simp
    note l = build_calls_log [OF stuck(3)]
    show ?thesis
      using l(1) c unfolding stuck(5) c1_def c2_def D_def by simp
  qed
  then show "calls (snd (build self dir n w)) = calls w
       \<or> calls (snd (build self dir n w)) = calls w @ [c1]
       \<or> calls (snd (build self dir n w)) = calls w @ [c1, c2]"
    and "fst (build self dir n w) = Inr () \<Longrightarrow>
         calls (snd (build self dir n w)) = calls w @ [c1, c2]"
    by simp_all
qed



section \<open>The claims\<close>

text \<open>
  C4 (amended). The constructor takes every string that \<^verbatim>\<open>int\<close> can read piece by
  piece, a signed piece included, so a component can be negative. When the version
  string that the constructor accepts has no minus sign, every component of the
  resulting tuple is at least zero.
\<close>

theorem version_tuple_nonneg_unsigned:
  assumes "fst (init s rt w) = Inr self" and "CHR ''-'' \<notin> set s"
  shows "\<forall>c \<in> set (version_tuple self). 0 \<le> c"
proof -
  have "parse_version s = Inr (version_tuple self)"
    using assms(1) by (rule init_fst_version_tuple)
  then show ?thesis using assms(2) by (rule parse_version_nonneg)
qed

theorem version_tuple_nonneg_unsigned_witness:
  "fst (init ''3.6.0'' (Some ''/work'') (demo_world ''3.6.0'' linked_shared)) = Inr (demo_self [3, 6, 0])
   \<and> CHR ''-'' \<notin> set ''3.6.0''
   \<and> list_all (\<lambda>c. 0 \<le> c) (version_tuple (demo_self [3, 6, 0]))"
proof -
  have h1: "fst (init ''3.6.0'' (Some ''/work'') (demo_world ''3.6.0'' linked_shared))
            = Inr (demo_self [3, 6, 0])"
    by code_simp
  have h2: "CHR ''-'' \<notin> set ''3.6.0''" by simp
  from version_tuple_nonneg_unsigned[OF h1 h2]
  have c: "list_all (\<lambda>c. 0 \<le> c) (version_tuple (demo_self [3, 6, 0]))"
    by (simp only: list_all_iff)
  show ?thesis using h1 h2 c by (intro conjI)
qed

text \<open>
  C4 as stated fails: the constructor accepts \<^verbatim>\<open>"3.-1.0"\<close> and the tuple is
  \<^verbatim>\<open>(3, -1, 0)\<close>.
\<close>

theorem version_tuple_negative_component:
  "fst (init ''3.-1.0'' (Some ''/work'') (demo_world ''3.5.0'' linked_shared))
     = Inr (demo_self [3, - 1, 0])
   \<and> \<not> (\<forall>c \<in> set (version_tuple (demo_self [3, - 1, 0])). 0 \<le> c)"
  by code_simp

text \<open>
  C5 (amended). For every version string made of plain numerals (digits only, no leading
  zero) between dots, the version string read back from the instance that the
  constructor builds is the string it was given.
\<close>

theorem version_roundtrip_plain:
  assumes "fst (init s rt w) = Inr self" and "plain_version s"
  shows "version self = s"
proof -
  have pv: "parse_version s = Inr (version_tuple self)"
    using assms(1) by (rule init_fst_version_tuple)
  obtain vt where "map_int (split_on CHR ''.'' s) = Inr vt"
      and "map py_str vt = split_on CHR ''.'' s"
    using map_int_roundtrip assms(2) unfolding plain_version_def by blast
  with pv have "map py_str (version_tuple self) = split_on CHR ''.'' s"
    by (simp add: parse_version_def)
  then show ?thesis by (simp add: version_def join_split_on)
qed

theorem version_roundtrip_plain_witness:
  "fst (init ''3.6.0'' (Some ''/work'') (demo_world ''3.6.0'' linked_shared)) = Inr (demo_self [3, 6, 0])
   \<and> plain_version ''3.6.0''
   \<and> version (demo_self [3, 6, 0]) = ''3.6.0''"
proof -
  have h1: "fst (init ''3.6.0'' (Some ''/work'') (demo_world ''3.6.0'' linked_shared))
            = Inr (demo_self [3, 6, 0])"
    by code_simp
  have h2: "plain_version ''3.6.0''" by code_simp
  from version_roundtrip_plain[OF h1 h2]
  have c: "version (demo_self [3, 6, 0]) = ''3.6.0''" .
  show ?thesis using h1 h2 c by (intro conjI)
qed

text \<open>
  C5 as stated fails: the constructor accepts \<^verbatim>\<open>"03.6.0"\<close>, and the version string
  of the instance is \<^verbatim>\<open>"3.6.0"\<close>.
\<close>

theorem version_roundtrip_leading_zero:
  "fst (init ''03.6.0'' (Some ''/work'') (demo_world ''3.6.0'' linked_shared))
     = Inr (demo_self [3, 6, 0])
   \<and> version (demo_self [3, 6, 0]) = ''3.6.0''
   \<and> ''3.6.0'' \<noteq> ''03.6.0''"
  by code_simp

text \<open>
  C6. On Windows, for a release before 3.6.0, the two child processes that \<^verbatim>\<open>build\<close>
  asks for are, in this order and from the build directory: the configuration, whose
  arguments begin with \<^verbatim>\<open>-G\<close> and \<^verbatim>\<open>NMake Makefiles\<close>, followed by the install prefix,
  the switch that leaves the tests out and the release build type; and the build, whose
  arguments end with \<^verbatim>\<open>--\<close>, \<^verbatim>\<open>WIN64=\<close> and \<^verbatim>\<open>BUILD_BATCH=\<close>, with the environment of
  the process unchanged. \<^verbatim>\<open>build\<close> asks for no other process: what it adds to the record
  of the calls is a beginning of these two, and both when it returns. No argument of the
  build is a job-count flag.
\<close>

theorem build_options_windows_legacy:
  assumes "os_name w = ''nt''" and "tuple_lt (version_tuple self) [3, 6, 0]"
  shows
    "let D = abspath w (case dir of None \<Rightarrow> expanduser w ''~/.local/share/libgeos''
                               | Some d \<Rightarrow> d);
         B = os_path_join (zipfold_of self) ''build'';
         configure = ([''cmake'', ''..'', ''-G'', ''NMake Makefiles'',
                       ''-DCMAKE_INSTALL_PREFIX='' @ D, ''-DGEOS_ENABLE_TESTS=OFF'',
                       ''-DCMAKE_BUILD_TYPE=Release''], None, B);
         compile = ([''cmake'', ''--build'', ''.'', ''--config'', ''Release'',
                     ''--target'', ''install'', ''--'',
                     ''WIN64='' @ (if 8 * calcsize_P w = 64 then ''YES'' else ''NO''),
                     ''BUILD_BATCH='' @ (if n > 1 then ''YES'' else ''NO'')],
                    Some (environ w), B);
         after = build self dir n w
     in (calls (snd after) = calls w
         \<or> calls (snd after) = calls w @ [configure]
         \<or> calls (snd after) = calls w @ [configure, compile])
      \<and> (fst after = Inr () \<longrightarrow> calls (snd after) = calls w @ [configure, compile])
      \<and> \<not> list_ex (prefix ''-j'') (fst compile)"
proof -
  define D where "D = abspath w (case dir of None \<Rightarrow> expanduser w ''~/.local/share/libgeos''
                                       | Some d \<Rightarrow> d)"
  have co: "[''cmake'', ''..''] @ config_opts w self D
      = [''cmake'', ''..'', ''-G'', ''NMake Makefiles'', ''-DCMAKE_INSTALL_PREFIX='' @ D,
         ''-DGEOS_ENABLE_TESTS=OFF'', ''-DCMAKE_BUILD_TYPE=Release'']"
    using assms by (simp add: config_opts_def)
  have bo: "[''cmake'', ''--build'', ''.''] @ build_opts w self n
      = [''cmake'', ''--build'', ''.'', ''--config'', ''Release'', ''--target'', ''install'', ''--'',
         ''WIN64='' @ (if 8 * calcsize_P w = 64 then ''YES'' else ''NO''),
         ''BUILD_BATCH='' @ (if n > 1 then ''YES'' else ''NO'')]"
    using assms by (simp add: build_opts_def)
  have be: "build_env w n = environ w"
    using assms by (simp add: build_env_def)
  note l = build_log [of self dir n w, folded D_def, unfolded co bo be]
  have nj: "\<not> list_ex (prefix ''-j'')
              [''cmake'', ''--build'', ''.'', ''--config'', ''Release'', ''--target'', ''install'', ''--'',
               ''WIN64='' @ (if 8 * calcsize_P w = 64 then ''YES'' else ''NO''),
               ''BUILD_BATCH='' @ (if n > 1 then ''YES'' else ''NO'')]"
    by simp
  show ?thesis
    unfolding Let_def D_def [symmetric] fst_conv
    using l(1) l(2) nj by (intro conjI impI)
qed

theorem build_options_windows_legacy_witness:
  "os_name demo_nt = ''nt''
   \<and> tuple_lt (version_tuple (demo_self [3, 5, 0])) [3, 6, 0]
   \<and> fst (build (demo_self [3, 5, 0]) (Some ''/opt/geos'') 4 demo_nt) = Inr ()
   \<and> calls (snd (build (demo_self [3, 5, 0]) (Some ''/opt/geos'') 4 demo_nt)) =
       [([''cmake'', ''..'', ''-G'', ''NMake Makefiles'', ''-DCMAKE_INSTALL_PREFIX=/opt/geos'',
          ''-DGEOS_ENABLE_TESTS=OFF'', ''-DCMAKE_BUILD_TYPE=Release''],
         None, ''/work/geos-3.5.0/build''),
        ([''cmake'', ''--build'', ''.'', ''--config'', ''Release'', ''--target'', ''install'',
          ''--'', ''WIN64=YES'', ''BUILD_BATCH=YES''],
         Some (environ demo_nt), ''/work/geos-3.5.0/build'')]"
proof -
  have h1: "os_name demo_nt = ''nt''"
    by (simp add: demo_nt_def demo_world_def)
  have h2: "tuple_lt (version_tuple (demo_self [3, 5, 0])) [3, 6, 0]"
    by (simp add: demo_self_def)
  have r: "fst (build (demo_self [3, 5, 0]) (Some ''/opt/geos'') 4 demo_nt) = Inr ()"
    by code_simp
  have c: "calls demo_nt = []"
    by (simp add: demo_nt_def demo_world_def)
  have a: "abspath demo_nt ''/opt/geos'' = ''/opt/geos''"
    by (simp add: demo_nt_def demo_world_def)
  have p: "calcsize_P demo_nt = 8"
    by (simp add: demo_nt_def demo_world_def)
  have b: "os_path_join (zipfold_of (demo_self [3, 5, 0])) ''build'' = ''/work/geos-3.5.0/build''"
    by code_simp
  note t = build_options_windows_legacy [OF h1 h2, of "Some ''/opt/geos''" 4,
      unfolded Let_def, THEN conjunct2, THEN conjunct1, rule_format, OF r]
  have "calls (snd (build (demo_self [3, 5, 0]) (Some ''/opt/geos'') 4 demo_nt)) =
       [([''cmake'', ''..'', ''-G'', ''NMake Makefiles'', ''-DCMAKE_INSTALL_PREFIX=/opt/geos'',
          ''-DGEOS_ENABLE_TESTS=OFF'', ''-DCMAKE_BUILD_TYPE=Release''],
         None, ''/work/geos-3.5.0/build''),
        ([''cmake'', ''--build'', ''.'', ''--config'', ''Release'', ''--target'', ''install'',
          ''--'', ''WIN64=YES'', ''BUILD_BATCH=YES''],
         Some (environ demo_nt), ''/work/geos-3.5.0/build'')]"
    using t by (simp add: c a p b)
  with h1 h2 r show ?thesis by (intro conjI)
qed

text \<open>
  C7. Off Windows, for every job count \<open>n\<close>, the two child processes that \<^verbatim>\<open>build\<close>
  asks for are, in this order and from the build directory: the configuration, with the
  install prefix, the switch that leaves the tests out and the release build type, and no
  environment of its own; and the build, whose environment is the one of the process
  with \<^verbatim>\<open>MAKEFLAGS\<close> set to \<^verbatim>\<open>-j n\<close>. \<^verbatim>\<open>build\<close> asks for no other process: what it adds
  to the record of the calls is a beginning of these two, and both when it returns. No
  argument of either call is a job-count flag.
\<close>

theorem build_options_posix_jobs:
  assumes "os_name w \<noteq> ''nt''"
  shows
    "let D = abspath w (case dir of None \<Rightarrow> expanduser w ''~/.local/share/libgeos''
                               | Some d \<Rightarrow> d);
         B = os_path_join (zipfold_of self) ''build'';
         configure = ([''cmake'', ''..'', ''-DCMAKE_INSTALL_PREFIX='' @ D,
                       ''-DGEOS_ENABLE_TESTS=OFF'', ''-DCMAKE_BUILD_TYPE=Release''], None, B);
         compile = ([''cmake'', ''--build'', ''.'', ''--config'', ''Release'',
                     ''--target'', ''install''],
                    Some ((environ w)(''MAKEFLAGS'' \<mapsto> ''-j '' @ py_str n)), B);
         after = build self dir n w
     in (calls (snd after) = calls w
         \<or> calls (snd after) = calls w @ [configure]
         \<or> calls (snd after) = calls w @ [configure, compile])
      \<and> (fst after = Inr () \<longrightarrow> calls (snd after) = calls w @ [configure, compile])
      \<and> \<not> list_ex (prefix ''-j'') (fst configure)
      \<and> \<not> list_ex (prefix ''-j'') (fst compile)"
proof -
  define D where "D = abspath w (case dir of None \<Rightarrow> expanduser w ''~/.local/share/libgeos''
                                       | Some d \<Rightarrow> d)"
  have co: "[''cmake'', ''..''] @ config_opts w self D
      = [''cmake'', ''..'', ''-DCMAKE_INSTALL_PREFIX='' @ D,
         ''-DGEOS_ENABLE_TESTS=OFF'', ''-DCMAKE_BUILD_TYPE=Release'']"
    using assms by (simp add: config_opts_def)
  have bo: "[''cmake'', ''--build'', ''.''] @ build_opts w self n
      = [''cmake'', ''--build'', ''.'', ''--config'', ''Release'', ''--target'', ''install'']"
    using assms by (simp add: build_opts_def)
  have be: "build_env w n = (environ w)(''MAKEFLAGS'' \<mapsto> ''-j '' @ py_str n)"
    using assms by (simp add: build_env_def)
  note l = build_log [of self dir n w, folded D_def, unfolded co bo be]
  have nj1: "\<not> list_ex (prefix ''-j'')
              [''cmake'', ''..'', ''-DCMAKE_INSTALL_PREFIX='' @ D,
               ''-DGEOS_ENABLE_TESTS=OFF'', ''-DCMAKE_BUILD_TYPE=Release'']"
    by simp
  have nj2: "\<not> list_ex (prefix ''-j'')
              [''cmake'', ''--build'', ''.'', ''--config'', ''Release'', ''--target'', ''install'']"
    by simp
  show ?thesis
    unfolding Let_def D_def [symmetric] fst_conv
    using l(1) l(2) nj1 nj2 by (intro conjI impI)
qed

theorem build_options_posix_jobs_witness:
  "os_name (demo_world ''3.9.0'' linked_shared) \<noteq> ''nt''
   \<and> fst (build (demo_self [3, 9, 0]) (Some ''/opt/geos'') 4 (demo_world ''3.9.0'' linked_shared))
       = Inr ()
   \<and> calls (snd (build (demo_self [3, 9, 0]) (Some ''/opt/geos'') 4
                  (demo_world ''3.9.0'' linked_shared))) =
       [([''cmake'', ''..'', ''-DCMAKE_INSTALL_PREFIX=/opt/geos'',
          ''-DGEOS_ENABLE_TESTS=OFF'', ''-DCMAKE_BUILD_TYPE=Release''],
         None, ''/work/geos-3.9.0/build''),
        ([''cmake'', ''--build'', ''.'', ''--config'', ''Release'', ''--target'', ''install''],
         Some ((environ (demo_world ''3.9.0'' linked_shared))(''MAKEFLAGS'' \<mapsto> ''-j 4'')),
         ''/work/geos-3.9.0/build'')]
   \<and> ((environ (demo_world ''3.9.0'' linked_shared))(''MAKEFLAGS'' \<mapsto> ''-j 4'')) ''PATH''
       = Some ''/usr/bin''"
proof -
  let ?W = "demo_world ''3.9.0'' linked_shared"
  have h: "os_name ?W \<noteq> ''nt''"
    by (simp add: demo_world_def)
  have r: "fst (build (demo_self [3, 9, 0]) (Some ''/opt/geos'') 4 ?W) = Inr ()"
    by code_simp
  have c: "calls ?W = []"
    by (simp add: demo_world_def)
  have a: "abspath ?W ''/opt/geos'' = ''/opt/geos''"
    by (simp add: demo_world_def)
  have s: "py_str 4 = ''4''"
    by code_simp
  have b: "os_path_join (zipfold_of (demo_self [3, 9, 0])) ''build'' = ''/work/geos-3.9.0/build''"
    by code_simp
  have e: "((environ ?W)(''MAKEFLAGS'' \<mapsto> ''-j 4'')) ''PATH'' = Some ''/usr/bin''"
    by (simp add: demo_world_def)
  note t = build_options_posix_jobs [OF h, of "Some ''/opt/geos''" "demo_self [3, 9, 0]" 4,
      unfolded Let_def, THEN conjunct2, THEN conjunct1, rule_format, OF r]
  have "calls (snd (build (demo_self [3, 9, 0]) (Some ''/opt/geos'') 4 ?W)) =
       [([''cmake'', ''..'', ''-DCMAKE_INSTALL_PREFIX=/opt/geos'',
          ''-DGEOS_ENABLE_TESTS=OFF'', ''-DCMAKE_BUILD_TYPE=Release''],
         None, ''/work/geos-3.9.0/build''),
        ([''cmake'', ''--build'', ''.'', ''--config'', ''Release'', ''--target'', ''install''],
         Some ((environ ?W)(''MAKEFLAGS'' \<mapsto> ''-j 4'')),
         ''/work/geos-3.9.0/build'')]"
    using t by (simp add: c a s b)
  with h r e show ?thesis by (intro conjI)
qed

text \<open>
  C1 (amended). When the extracted-directory path exists, \<^verbatim>\<open>extract(overwrite=False)\<close>
  always raises, and nothing at or under that path is changed. When the archive is
  present, or is missing and its download succeeds, the exception is the \<^verbatim>\<open>OSError\<close>
  with the message \<^verbatim>\<open>folder '...' already exists\<close>: an instance of the class
  \<^verbatim>\<open>OSError\<close> itself, which is the class of the I/O failures; with the archive present
  the call changes nothing at all. When the archive is missing and its download fails,
  the exception is the one of the download, and the world is as the download left it.
\<close>

theorem extract_refuses_existing:
  assumes "exists w (zipfold_of self)"
  shows "(\<exists>e. fst (geos_extract self False w) = Inl e)
       \<and> (\<forall>p. under (zipfold_of self) p \<longrightarrow>
                fs (snd (geos_extract self False w)) p = fs w p)
       \<and> (exists w (zippath_of self) \<longrightarrow>
            geos_extract self False w = (Inl (already_exists (zipfold_of self)), w))
       \<and> (\<forall>w1. download self w = (Inr (), w1) \<longrightarrow>
            fst (geos_extract self False w) = Inl (already_exists (zipfold_of self)))
       \<and> (\<not> exists w (zippath_of self) \<longrightarrow>
            (\<forall>e w1. download self w = (Inl e, w1) \<longrightarrow>
               geos_extract self False w = (Inl e, w1)))
       \<and> cls (already_exists (zipfold_of self)) = OSError
       \<and> is_OSError (already_exists (zipfold_of self))"
proof -
  note eq = extract_refused[OF assms]
  have 1: "\<exists>e. fst (geos_extract self False w) = Inl e"
    unfolding eq by (auto split: prod.splits sum.splits)
  have 2: "\<forall>p. under (zipfold_of self) p \<longrightarrow> fs (snd (geos_extract self False w)) p = fs w p"
  proof (intro allI impI)
    fix p assume "under (zipfold_of self) p"
    then have "p \<noteq> zippath_of self" using zippath_not_under by auto
    then have "fs (snd (download self w)) p = fs w p" by (rule download_fs)
    then show "fs (snd (geos_extract self False w)) p = fs w p"
      unfolding eq by (auto split: prod.splits sum.splits)
  qed
  have 3: "exists w (zippath_of self) \<longrightarrow>
           geos_extract self False w = (Inl (already_exists (zipfold_of self)), w)"
    unfolding eq by simp
  have 4: "\<forall>w1. download self w = (Inr (), w1) \<longrightarrow>
           fst (geos_extract self False w) = Inl (already_exists (zipfold_of self))"
    unfolding eq by (auto split: prod.splits sum.splits)
  have 5: "cls (already_exists (zipfold_of self)) = OSError
           \<and> is_OSError (already_exists (zipfold_of self))"
    by (simp add: already_exists_def)
  have 6: "\<not> exists w (zippath_of self) \<longrightarrow>
           (\<forall>e w1. download self w = (Inl e, w1) \<longrightarrow>
              geos_extract self False w = (Inl e, w1))"
    unfolding eq by simp
  from 1 2 3 4 5 6 show ?thesis by blast
qed

theorem extract_refuses_existing_witness:
  "exists demo_extracted (zipfold_of (demo_self [3, 5, 0]))
   \<and> fst (geos_extract (demo_self [3, 5, 0]) False demo_extracted)
       = Inl (already_exists (zipfold_of (demo_self [3, 5, 0])))
   \<and> fs (snd (geos_extract (demo_self [3, 5, 0]) False demo_extracted)) ''/work/geos-3.5.0/README''
       = fs demo_extracted ''/work/geos-3.5.0/README''"
proof -
  have h: "exists demo_extracted (zipfold_of (demo_self [3, 5, 0]))" by code_simp
  have a: "exists demo_extracted (zippath_of (demo_self [3, 5, 0]))" by code_simp
  have u: "under (zipfold_of (demo_self [3, 5, 0])) ''/work/geos-3.5.0/README''" by code_simp
  from extract_refuses_existing[OF h] a u h show ?thesis by simp
qed

text \<open>
  C1 as stated fails: with the extracted directory in place, the archive gone and the
  network down, the call raises the \<^verbatim>\<open>URLError\<close> of the download, not an error about the
  destination.
\<close>

theorem extract_refusal_raises_download_error:
  "exists demo_no_archive (zipfold_of (demo_self [3, 5, 0]))
   \<and> fst (geos_extract (demo_self [3, 5, 0]) False demo_no_archive) = Inl (Exc URLError [])
   \<and> Exc URLError [] \<noteq> already_exists (zipfold_of (demo_self [3, 5, 0]))"
  by code_simp




text \<open>
  C10 (amended). For every root that the caller gives and every version string that
  parses, the constructor passes over every \<^verbatim>\<open>OSError\<close> of the creation of the root,
  whatever its kind: it returns the instance as it does when the creation succeeds, and
  leaves the world as the creation left it, with the root there or not. An exception of
  the creation that is not an \<^verbatim>\<open>OSError\<close> is not passed over: the constructor raises
  it.
\<close>

theorem init_passes_over_OSError_of_root:
  assumes "parse_version s = Inr vt"
  shows
    "let made = os_makedirs r w;
         inst = \<lparr>version_tuple = vt, temp = False, root = r\<rparr>
     in (fst made = Inr () \<longrightarrow> init s (Some r) w = (Inr inst, snd made))
      \<and> (\<forall>e. fst made = Inl e \<and> is_OSError e \<longrightarrow> init s (Some r) w = (Inr inst, snd made))
      \<and> (\<forall>e. fst made = Inl e \<and> \<not> is_OSError e \<longrightarrow> init s (Some r) w = (Inl e, snd made))"
proof -
  note i = init_given_root [OF assms, of r w]
  show ?thesis
    unfolding Let_def i by (cases "fst (os_makedirs r w)") simp_all
qed

theorem init_passes_over_OSError_of_root_witness:
  "parse_version ''3.5.0'' = Inr [3, 5, 0]
   \<and> fst (os_makedirs ''/work/lib/geos'' demo_denied) = Inl (Exc PermissionError [])
   \<and> is_OSError (Exc PermissionError [])
   \<and> fst (init ''3.5.0'' (Some ''/work/lib/geos'') demo_denied)
        = Inr \<lparr>version_tuple = [3, 5, 0], temp = False, root = ''/work/lib/geos''\<rparr>
   \<and> \<not> exists (snd (init ''3.5.0'' (Some ''/work/lib/geos'') demo_denied)) ''/work/lib/geos''"
proof -
  have h: "parse_version ''3.5.0'' = Inr [3, 5, 0]"
    by code_simp
  have m: "fst (os_makedirs ''/work/lib/geos'' demo_denied) = Inl (Exc PermissionError [])"
    by code_simp
  have o: "is_OSError (Exc PermissionError [])"
    by simp
  have x: "\<not> exists (snd (os_makedirs ''/work/lib/geos'' demo_denied)) ''/work/lib/geos''"
    by code_simp
  note t = init_passes_over_OSError_of_root [OF h, of "''/work/lib/geos''" demo_denied,
      unfolded Let_def, THEN conjunct2, THEN conjunct1, THEN spec, THEN mp, OF conjI, OF m o]
  have a: "fst (init ''3.5.0'' (Some ''/work/lib/geos'') demo_denied)
        = Inr \<lparr>version_tuple = [3, 5, 0], temp = False, root = ''/work/lib/geos''\<rparr>"
    unfolding t by simp
  have b: "\<not> exists (snd (init ''3.5.0'' (Some ''/work/lib/geos'') demo_denied)) ''/work/lib/geos''"
    unfolding t using x by simp
  from h m o a b show ?thesis by (intro conjI)
qed

text \<open>
  C10 as stated fails: the creation of a root whose name holds a NUL character raises
  \<^verbatim>\<open>ValueError\<close>, which is not an \<^verbatim>\<open>OSError\<close>, and the constructor raises it.
\<close>

theorem init_raises_on_null_root:
  "parse_version ''3.5.0'' = Inr [3, 5, 0]
   \<and> fst (init ''3.5.0'' (Some null_root) (demo_world ''3.5.0'' linked_shared))
       = Inl (Exc ValueError ''embedded null byte'')
   \<and> \<not> is_OSError (Exc ValueError ''embedded null byte'')"
  by code_simp

text \<open>
  C9. \<^verbatim>\<open>build\<close> does not look at the exit statuses of the two invocations of the build
  tool: with a tool that reports the statuses \<open>st\<close>, whatever they are, the call ends as
  it ends with a tool that reports 0 every time, with the same result (a normal return
  when that one returns) and in the same world.
\<close>

theorem build_ignores_exit_status:
  "build self dir n (reports st w)
     = (fst (build self dir n (reports (\<lambda>args env d. 0) w)),
        reports st (snd (build self dir n (reports (\<lambda>args env d. 0) w))))"
proof -
let ?w0 = "reports (\<lambda>args env d. 0) w"
  obtain r w1 where e: "geos_extract self True w = (r, w1)"
    by (cases "geos_extract self True w")
  have et: "geos_extract self True (reports st' w) = (r, reports st' w1)" for st'
    using tool_blindD[OF tool_blind_extract, of self True _ w] e by (simp add: reports_def)
  show "build self dir n (reports st w)
      = (fst (build self dir n ?w0), reports st (snd (build self dir n ?w0)))"
  proof (cases r)
    case (Inl x)
    then show ?thesis by (simp add: build_unfold et)
  next
    case (Inr u)
    let ?K = "io_bind os_getcwd
            (\<lambda>cwd0. try_finally
               (build_calls (os_path_join (zipfold_of self) ''build'')
                  (abspath w1 (case dir of None \<Rightarrow> expanduser w1 ''~/.local/share/libgeos''
                                       | Some d \<Rightarrow> d))
                  (config_opts w1 self
                     (abspath w1 (case dir of None \<Rightarrow> expanduser w1 ''~/.local/share/libgeos''
                                          | Some d \<Rightarrow> d)))
                  (build_opts w1 self n) (build_env w1 n))
               (os_chdir cwd0))"
    have K: "status_blind ?K"
      by (intro status_blind_bind status_blind_try_finally status_blind_build_calls
            tool_blind_status_blind tool_blind_os_getcwd tool_blind_os_chdir)
    have b: "build self dir n (reports st' w) = ?K (reports st' w1)" for st'
      using Inr by (cases dir) (simp_all add: build_unfold et)
    show ?thesis unfolding b using status_blindD[OF K, of st w1] by simp
  qed
qed

theorem build_ignores_exit_status_witness:
  "subprocess_call (reports (\<lambda>args env d. 2) (demo_world ''3.5.0'' linked_shared))
      [''cmake'', ''..''] None ''/work/geos-3.5.0/build'' = Inr 2
   \<and> fst (build (demo_self [3, 5, 0]) None 4
            (reports (\<lambda>args env d. 2) (demo_world ''3.5.0'' linked_shared))) = Inr ()"
proof -
  have a: "subprocess_call (reports (\<lambda>args env d. 2) (demo_world ''3.5.0'' linked_shared))
      [''cmake'', ''..''] None ''/work/geos-3.5.0/build'' = Inr 2"
    by (simp add: reports_def with_tool_def)
  have z: "fst (build (demo_self [3, 5, 0]) None 4
            (reports (\<lambda>args env d. 0) (demo_world ''3.5.0'' linked_shared))) = Inr ()"
    by code_simp
  have "fst (build (demo_self [3, 5, 0]) None 4
            (reports (\<lambda>args env d. 2) (demo_world ''3.5.0'' linked_shared)))
      = fst (build (demo_self [3, 5, 0]) None 4
            (reports (\<lambda>args env d. 0) (demo_world ''3.5.0'' linked_shared)))"
    by (subst build_ignores_exit_status) (rule fst_conv)
  with z have b: "fst (build (demo_self [3, 5, 0]) None 4
            (reports (\<lambda>args env d. 2) (demo_world ''3.5.0'' linked_shared))) = Inr ()"
    by (rule trans[rotated])
  show ?thesis using a b by (intro conjI)
qed



text \<open>
  C3 (amended). When \<^verbatim>\<open>extract\<close> completes, \<^verbatim>\<open>capi/CMakeLists.txt\<close> of the extracted tree
  was valid UTF-8, and the patched file is the concatenation of its lines, read with
  \<^verbatim>\<open>\r\n\<close> and \<^verbatim>\<open>\r\<close> turned into \<^verbatim>\<open>\n\<close>, each with the shared-library directive
  replaced. The patched file does not contain the shared-library directive; it contains
  the static-library directive whenever the file contained the shared-library directive
  before; a line without the directive is written back as it was read; and the lines
  read are the bytes of the file when the file has no carriage return.
\<close>

theorem cmakelists_patched:
  assumes "fst (geos_extract self ov w) = Inr ()"
  shows "\<exists>c. content_at (snd (unpack self ov w)) (cmakefile_of (zipfold_of self)) = Some c
           \<and> utf8_valid c
           \<and> content_at (snd (geos_extract self ov w)) (cmakefile_of (zipfold_of self))
               = Some (concat (map (py_replace oldtext newtext) (lines_read c)))
           \<and> \<not> sublist oldtext (concat (map (py_replace oldtext newtext) (lines_read c)))
           \<and> (sublist oldtext c
                \<longrightarrow> sublist newtext (concat (map (py_replace oldtext newtext) (lines_read c))))
           \<and> (\<forall>l. \<not> sublist oldtext l \<longrightarrow> py_replace oldtext newtext l = l)
           \<and> (CR \<notin> set c \<longrightarrow> concat (lines_read c) = c)"
proof -
  let ?z = "zipfold_of self"
  let ?cm = "cmakefile_of ?z"
  let ?w1 = "snd (unpack self ov w)"
  obtain w2 w3 where c: "chmod_tools ?z ?w1 = (Inr (), w2)"
      and p: "patch_cmakelists ?z w2 = (Inr (), w3)"
      and s: "write_svn_revision self ?z w3 = (Inr (), snd (geos_extract self ov w))"
    using extract_steps[OF assms] by blast
  obtain c0 m0 where f2: "fs w2 ?cm = Some (File c0 m0)" and u: "utf8_valid c0"
      and w3: "w3 = w2\<lparr>fs := (fs w2)(?cm \<mapsto> File (patch_lines (lines_read c0)) m0)\<rparr>"
    using patch_effect[OF p] unfolding lines_read_def by blast
  have "content_at (snd (chmod_tools ?z ?w1)) ?cm = content_at ?w1 ?cm"
    by (rule content_at_chmod)
  then have 1: "content_at ?w1 ?cm = Some c0" using c f2 by (simp add: content_at_def)
  have "fs (snd (geos_extract self ov w)) ?cm = fs w3 ?cm"
    unfolding write_svn_effect[OF s] using hfile_not_cmakefile[of self] by simp
  then have 2: "content_at (snd (geos_extract self ov w)) ?cm
      = Some (concat (map (py_replace oldtext newtext) (lines_read c0)))"
    by (simp add: content_at_def w3 patch_lines_def)
  have 3: "\<not> sublist oldtext (concat (map (py_replace oldtext newtext) (lines_read c0)))"
    using patch_lines_removes[OF lines_read_ends, of c0] by (simp add: patch_lines_def)
  have 4: "sublist oldtext c0
      \<longrightarrow> sublist newtext (concat (map (py_replace oldtext newtext) (lines_read c0)))"
  proof
    assume "sublist oldtext c0"
    then obtain l where "l \<in> set (lines_read c0)" "sublist oldtext l"
      using oldtext_in_some_line by blast
    then have "sublist newtext (patch_lines (lines_read c0))" by (rule patch_lines_contains)
    then show "sublist newtext (concat (map (py_replace oldtext newtext) (lines_read c0)))"
      by (simp add: patch_lines_def)
  qed
  have 5: "\<forall>l. \<not> sublist oldtext l \<longrightarrow> py_replace oldtext newtext l = l"
    using py_replace_keeps by blast
  have 6: "CR \<notin> set c0 \<longrightarrow> concat (lines_read c0) = c0"
    using lines_read_concat by blast
  show ?thesis using 1 u 2 3 4 5 6 by blast
qed

theorem cmakelists_patched_witness:
  "fst (geos_extract (demo_self [3, 5, 0]) True (demo_world ''3.5.0'' linked_shared)) = Inr ()
   \<and> content_at (snd (unpack (demo_self [3, 5, 0]) True (demo_world ''3.5.0'' linked_shared)))
        (cmakefile_of (zipfold_of (demo_self [3, 5, 0])))
       = Some (''project(geos_c)'' @ [NL] @ ''target_link_libraries(geos_c geos)'' @ [NL])
   \<and> content_at (snd (geos_extract (demo_self [3, 5, 0]) True (demo_world ''3.5.0'' linked_shared)))
        (cmakefile_of (zipfold_of (demo_self [3, 5, 0])))
       = Some (''project(geos_c)'' @ [NL] @ ''target_link_libraries(geos_c geos-static)'' @ [NL])
   \<and> sublist newtext
        (''project(geos_c)'' @ [NL] @ ''target_link_libraries(geos_c geos-static)'' @ [NL])"
proof -
  let ?W = "demo_world ''3.5.0'' linked_shared"
  let ?S = "demo_self [3, 5, 0]"
  let ?cm = "cmakefile_of (zipfold_of ?S)"
  let ?old = "''project(geos_c)'' @ [NL] @ ''target_link_libraries(geos_c geos)'' @ [NL]"
  let ?new = "''project(geos_c)'' @ [NL] @ ''target_link_libraries(geos_c geos-static)'' @ [NL]"
  have h: "fst (geos_extract ?S True ?W) = Inr ()" by code_simp
  have a: "content_at (snd (unpack ?S True ?W)) ?cm = Some ?old" by code_simp
  have b: "content_at (snd (geos_extract ?S True ?W)) ?cm = Some ?new" by code_simp
  have o: "sublist oldtext ?old" by code_simp
  obtain c where c: "content_at (snd (unpack ?S True ?W)) ?cm = Some c"
      and p: "content_at (snd (geos_extract ?S True ?W)) ?cm
                = Some (concat (map (py_replace oldtext newtext) (lines_read c)))"
      and n: "sublist oldtext c
                \<longrightarrow> sublist newtext (concat (map (py_replace oldtext newtext) (lines_read c)))"
    using cmakelists_patched[OF h] by blast
  have "c = ?old" using a c by simp
  moreover have "concat (map (py_replace oldtext newtext) (lines_read c)) = ?new"
    using b p by simp
  ultimately have d: "sublist newtext ?new" using n o by simp
  show ?thesis using h a b d by (intro conjI)
qed

text \<open>
  C3 as stated fails: a build descriptor without the shared-library directive, with
  \<^verbatim>\<open>\r\n\<close> line ends, comes out of \<^verbatim>\<open>extract\<close> without the static-library directive,
  and with every line changed (its line end is \<^verbatim>\<open>\n\<close>).
\<close>

theorem cmakelists_without_directive:
  "fst (geos_extract (demo_self [3, 9, 0]) True (demo_world ''3.9.0'' not_linked)) = Inr ()
   \<and> content_at (snd (unpack (demo_self [3, 9, 0]) True (demo_world ''3.9.0'' not_linked)))
        (cmakefile_of (zipfold_of (demo_self [3, 9, 0])))
       = Some (''project(geos_c)'' @ [CR, NL] @ ''add_library(geos_c)'' @ [CR, NL])
   \<and> content_at (snd (geos_extract (demo_self [3, 9, 0]) True (demo_world ''3.9.0'' not_linked)))
        (cmakefile_of (zipfold_of (demo_self [3, 9, 0])))
       = Some (''project(geos_c)'' @ [NL] @ ''add_library(geos_c)'' @ [NL])
   \<and> \<not> sublist newtext (''project(geos_c)'' @ [NL] @ ''add_library(geos_c)'' @ [NL])"
  by code_simp

end
